theory Spec2Isabelle
  imports Main "HOL-Library.Word"
begin

unbundle bit_operations_syntax

section \<open>Conkit: a shallow embedding of \<^verbatim>\<open>conkit.h\<close>\<close>

text \<open>
  The header keeps all of its state in globals. The embedding threads a record of those
  globals, together with the part of the outside world the functions touch (the attributes
  of the terminal, the bytes waiting on file descriptor 0 and in the buffer of the stream
  \<^verbatim>\<open>stdin\<close>, the bytes printed to standard output, the log of terminal
  calls), through every function. \<^verbatim>\<open>size_t\<close> is a
  64-bit word (LP64 and LLP64 agree on that), \<^verbatim>\<open>char\<close> is a byte.

  The header selects one of two branches. Of the Windows branch the size query is
  embedded; its \<^verbatim>\<open>ck_init\<close> and \<^verbatim>\<open>ck_end\<close> differ from the
  Unix-like ones, which are embedded, in the calls on the console mode only, and
  \<^verbatim>\<open>getch\<close> and \<^verbatim>\<open>kbhit\<close> are the system's there.
\<close>

subsection \<open>C strings and memory blocks\<close>

type_synonym size_t = "64 word"

abbreviation NUL :: char where
  "NUL \<equiv> CHR 0x00"

abbreviation ESC :: char where
  "ESC \<equiv> CHR 0x1B"

text \<open>The string a \<^verbatim>\<open>char *\<close> denotes: the bytes before the first NUL.\<close>

definition c_str :: "string \<Rightarrow> string" where
  "c_str m = takeWhile (\<lambda>c. c \<noteq> NUL) m"

definition strlen :: "string \<Rightarrow> size_t" where
  "strlen m = of_nat (length (c_str m))"

text \<open>
  A pointer global and the block it points to. A global starts as the null pointer;
  \<^verbatim>\<open>free\<close> leaves it dangling.
\<close>

datatype block = Unallocated | Allocated string | Released

text \<open>What the allocator answers to \<^verbatim>\<open>realloc\<close>: failure, or success together
  with the indeterminate content of the bytes beyond the old size.\<close>

datatype realloc_reply = Realloc_Fails | Realloc_Gives "nat \<Rightarrow> char"

text \<open>\<^verbatim>\<open>calloc(n, 1)\<close> when the allocator has memory.\<close>

definition calloc :: "nat \<Rightarrow> block" where
  "calloc n = Allocated (replicate n NUL)"

text \<open>
  \<^verbatim>\<open>realloc(p, n)\<close>: \<open>None\<close> is undefined behaviour (the block was freed),
  \<open>Some None\<close> the null pointer of a failed request (the old block stays as it is),
  \<open>Some (Some m)\<close> the new block, whose first bytes are the old ones.
\<close>

fun realloc :: "block \<Rightarrow> nat \<Rightarrow> realloc_reply \<Rightarrow> string option option" where
  "realloc Released n reply = None"
| "realloc b n Realloc_Fails = Some None"
| "realloc Unallocated n (Realloc_Gives junk) = Some (Some (map junk [0..<n]))"
| "realloc (Allocated m) n (Realloc_Gives junk) =
     Some (Some (take n m @ map junk [length m..<n]))"

text \<open>\<^verbatim>\<open>free(p)\<close>: nothing happens on the null pointer, a second free is undefined.\<close>

fun free :: "block \<Rightarrow> block option" where
  "free Unallocated = Some Unallocated"
| "free (Allocated m) = Some Released"
| "free Released = None"

text \<open>
  \<^verbatim>\<open>strcat(dst, src)\<close> on the bytes of the destination block: the bytes of
  \<open>src\<close> and a NUL are written from the first NUL of the block on. \<open>None\<close> is undefined
  behaviour: the block holds no NUL, or the copy runs over its end.
\<close>

definition strcat :: "string \<Rightarrow> string \<Rightarrow> string option" where
  "strcat m src =
     (let k = length (c_str m); d = c_str src @ [NUL] in
      if k < length m \<and> k + length d \<le> length m
      then Some (take k m @ d @ drop (k + length d) m)
      else None)"

text \<open>\<^verbatim>\<open>memset(p, 0, n)\<close> on the bytes of a block.\<close>

definition memset0 :: "string \<Rightarrow> nat \<Rightarrow> string option" where
  "memset0 m n = (if n \<le> length m then Some (replicate n NUL @ drop n m) else None)"

text \<open>Reading a block as a C string (\<^verbatim>\<open>%s\<close>): undefined when it holds no NUL.\<close>

definition read_str :: "block \<Rightarrow> string option" where
  "read_str b =
     (case b of
        Allocated m \<Rightarrow> if NUL \<in> set m then Some (c_str m) else None
      | _ \<Rightarrow> None)"

text \<open>
  \<^verbatim>\<open>sprintf(p, ...)\<close> once the text is formatted: the text and a NUL go to the
  start of the block. The text itself is read as far as it goes: a NUL produced by
  \<^verbatim>\<open>%c\<close> is written like any other byte.
\<close>

definition sprintf :: "block \<Rightarrow> string \<Rightarrow> block option" where
  "sprintf b txt =
     (case b of
        Allocated m \<Rightarrow>
          if length txt + 1 \<le> length m
          then Some (Allocated (txt @ [NUL] @ drop (length txt + 1) m))
          else None
      | _ \<Rightarrow> None)"

subsection \<open>Decimal conversions of \<^verbatim>\<open>printf\<close>\<close>

text \<open>
  \<^verbatim>\<open>%d\<close> of a value that is not negative and \<^verbatim>\<open>%zu\<close>: the decimal
  digits, most significant first, no padding. \<open>digit_char\<close> is only applied below 10.
\<close>

definition digit_char :: "nat \<Rightarrow> char" where
  "digit_char d = ''0123456789'' ! d"

function decimal :: "nat \<Rightarrow> string" where
  "decimal n =
     (if n < 10 then [digit_char n] else decimal (n div 10) @ [digit_char (n mod 10)])"
  by pat_completeness auto
termination
  by (relation "measure id") auto

declare decimal.simps [simp del]

subsection \<open>The globals and the world\<close>

record ck_console_size =
  width :: size_t
  height :: size_t
  has_changed :: bool

text \<open>\<^verbatim>\<open>struct termios\<close>: the four flag words and the control characters.\<close>

record termios =
  c_iflag :: "32 word"
  c_oflag :: "32 word"
  c_cflag :: "32 word"
  c_lflag :: "32 word"
  c_cc :: "8 word list"

text \<open>The values of \<^verbatim>\<open><termios.h>\<close> on Linux.\<close>

definition ECHO :: "32 word" where
  "ECHO = 8"

definition ICANON :: "32 word" where
  "ICANON = 2"

text \<open>
  The calls on the terminal and on file descriptor 0, in the order they happen:
  \<^verbatim>\<open>tcsetattr\<close> with the attributes it sets, a \<^verbatim>\<open>read\<close> with the bytes
  it returned, \<^verbatim>\<open>poll\<close> with the \<^verbatim>\<open>POLLIN\<close> bit it reported.
\<close>

datatype event = Tcsetattr termios | Read_Stdin string | Poll bool

text \<open>
  Standard input has two layers. \<open>stdin_pending\<close> holds the bytes that have arrived
  at file descriptor 0 and that no \<^verbatim>\<open>read\<close> has taken; \<open>stdin_closed\<close> says
  that no more will arrive (end of file once they are read). \<open>stdin_buffer\<close> holds
  the bytes the stream \<^verbatim>\<open>stdin\<close> of \<^verbatim>\<open><stdio.h>\<close> has read ahead and
  \<^verbatim>\<open>getchar\<close> has not yet returned.
\<close>

record ck_state =
  CK_SCREEN_BUFFER_SIZE :: size_t
  CK_SCREEN_BUFFER_END :: size_t
  CK_SCREEN_BUFFER :: block
  CK_SEQUENCE_BUFFER :: block
  CK_CONSOLE_SETTS :: termios
  CK_CONSOLE_ORIG_SETTS :: termios
  knownSize :: ck_console_size
  tty :: termios
  stdin_pending :: string
  stdin_closed :: bool
  stdin_buffer :: string
  stdout_written :: string
  events :: "event list"

definition CK_ALLOC_SIZE :: size_t where
  "CK_ALLOC_SIZE = 100"

text \<open>
  The size of the sequence buffer is computed in floating point,
  \<^verbatim>\<open>2 * (log10(pow(2, sizeof(size_t) * 8) - 1) + 1) + 21\<close>: with an 8-byte
  \<^verbatim>\<open>size_t\<close> that is \<open>2 * 20.27 + 21 = 61.53\<close>, which the conversion to
  \<^verbatim>\<open>size_t\<close> truncates to 61.
\<close>

definition CK_SEQUENCE_BUFFER_LEN :: nat where
  "CK_SEQUENCE_BUFFER_LEN = 61"

text \<open>How a call can fail to return to its caller.\<close>

datatype halt =
    Exit_Failure ck_state \<comment> \<open>\<^verbatim>\<open>exit(EXIT_FAILURE)\<close>, with the state it leaves\<close>
  | Undefined_Behaviour
  | Loops_Forever
  | Waits_For_Input ck_state

text \<open>A process before \<^verbatim>\<open>main\<close>: the globals are zero.\<close>

definition zero_termios :: termios where
  "zero_termios = \<lparr>c_iflag = 0, c_oflag = 0, c_cflag = 0, c_lflag = 0, c_cc = []\<rparr>"

definition process_start :: "termios \<Rightarrow> string \<Rightarrow> ck_state" where
  "process_start t inp =
     \<lparr>CK_SCREEN_BUFFER_SIZE = 0, CK_SCREEN_BUFFER_END = 0,
      CK_SCREEN_BUFFER = Unallocated, CK_SEQUENCE_BUFFER = Unallocated,
      CK_CONSOLE_SETTS = zero_termios, CK_CONSOLE_ORIG_SETTS = zero_termios,
      knownSize = \<lparr>width = 0, height = 0, has_changed = False\<rparr>,
      tty = t, stdin_pending = inp, stdin_closed = False, stdin_buffer = [],
      stdout_written = [], events = []\<rparr>"


subsection \<open>\<^verbatim>\<open>ck_init\<close> and \<^verbatim>\<open>ck_end\<close> (Unix-like branch)\<close>

text \<open>
  The two Booleans say whether the first and the second \<^verbatim>\<open>calloc\<close> succeed.
  \<^verbatim>\<open>perror\<close> only writes a diagnostic to standard error, which the model does not
  keep. The \<^verbatim>\<open>memset\<close> after the first \<^verbatim>\<open>calloc\<close> zeroes bytes that
  are zero already.
\<close>

definition ck_init :: "bool \<Rightarrow> bool \<Rightarrow> ck_state \<Rightarrow> halt + ck_state" where
  "ck_init screen_ok sequence_ok s =
     (let s1 = s\<lparr>CK_CONSOLE_ORIG_SETTS := tty s\<rparr>;
          s2 = s1\<lparr>CK_CONSOLE_SETTS := CK_CONSOLE_ORIG_SETTS s1\<rparr>;
          s3 = s2\<lparr>CK_CONSOLE_SETTS :=
                 (CK_CONSOLE_SETTS s2)\<lparr>c_lflag :=
                    c_lflag (CK_CONSOLE_SETTS s2) AND (NOT ECHO AND NOT ICANON)\<rparr>\<rparr>;
          s4 = s3\<lparr>CK_SCREEN_BUFFER_SIZE := CK_ALLOC_SIZE\<rparr>
      in if \<not> screen_ok then Inl (Exit_Failure (s4\<lparr>CK_SCREEN_BUFFER := Unallocated\<rparr>))
         else
           (let s5 = s4\<lparr>CK_SCREEN_BUFFER := calloc (unat (CK_SCREEN_BUFFER_SIZE s4))\<rparr>;
                s6 = s5\<lparr>CK_SCREEN_BUFFER_END := 0\<rparr>
            in (case CK_SCREEN_BUFFER s6 of
                  Allocated m \<Rightarrow>
                    (case memset0 m (unat CK_ALLOC_SIZE) of
                       None \<Rightarrow> Inl Undefined_Behaviour
                     | Some m' \<Rightarrow>
                         (let s7 = s6\<lparr>CK_SCREEN_BUFFER := Allocated m'\<rparr>
                          in if \<not> sequence_ok
                             then Inl (Exit_Failure (s7\<lparr>CK_SEQUENCE_BUFFER := Unallocated\<rparr>))
                             else Inr (s7\<lparr>CK_SEQUENCE_BUFFER :=
                                           calloc CK_SEQUENCE_BUFFER_LEN\<rparr>)))
                | _ \<Rightarrow> Inl Undefined_Behaviour)))"

definition ck_end :: "ck_state \<Rightarrow> halt + ck_state" where
  "ck_end s =
     (case free (CK_SCREEN_BUFFER s) of
        None \<Rightarrow> Inl Undefined_Behaviour
      | Some b1 \<Rightarrow>
          (case free (CK_SEQUENCE_BUFFER s) of
             None \<Rightarrow> Inl Undefined_Behaviour
           | Some b2 \<Rightarrow> Inr (s\<lparr>CK_SCREEN_BUFFER := b1, CK_SEQUENCE_BUFFER := b2\<rparr>)))"

subsection \<open>\<^verbatim>\<open>ck_print\<close> and \<^verbatim>\<open>ck_flip\<close>\<close>

text \<open>
  The loop of \<^verbatim>\<open>ck_print\<close>, on the three variables it reads:
  \<^verbatim>\<open>while(END + len + 1 > SIZE) SIZE += CK_ALLOC_SIZE;\<close>.
  The arithmetic wraps, so the loop need not end; \<open>None\<close> is the loop that runs forever.
  In \<^verbatim>\<open>ck_print\<close> itself the global \<^verbatim>\<open>CK_ALLOC_BUFFER\<close> only
  holds the result of \<^verbatim>\<open>realloc\<close> until it is tested and copied to
  \<^verbatim>\<open>CK_SCREEN_BUFFER\<close>; the model binds that result in a
  \<^theory_text>\<open>case\<close>.
\<close>

partial_function (option) ck_print_loop :: "size_t \<Rightarrow> size_t \<Rightarrow> size_t \<Rightarrow> size_t option" where
  "ck_print_loop buf_end len buf_size =
     (if buf_end + len + 1 > buf_size
      then ck_print_loop buf_end len (buf_size + CK_ALLOC_SIZE)
      else Some buf_size)"

definition ck_print :: "string \<Rightarrow> realloc_reply \<Rightarrow> ck_state \<Rightarrow> halt + ck_state" where
  "ck_print buffer reply s =
     (let len = strlen buffer + 1 in
      (case ck_print_loop (CK_SCREEN_BUFFER_END s) len (CK_SCREEN_BUFFER_SIZE s) of
         None \<Rightarrow> Inl Loops_Forever
       | Some new_size \<Rightarrow>
          (let s1 = s\<lparr>CK_SCREEN_BUFFER_SIZE := new_size\<rparr>;
               s2 = s1\<lparr>CK_SCREEN_BUFFER_END := CK_SCREEN_BUFFER_END s1 + len + 1\<rparr>
           in (case realloc (CK_SCREEN_BUFFER s2) (unat (CK_SCREEN_BUFFER_SIZE s2)) reply of
                 None \<Rightarrow> Inl Undefined_Behaviour
               | Some None \<Rightarrow>
                   (case free (CK_SCREEN_BUFFER s2) of
                      None \<Rightarrow> Inl Undefined_Behaviour
                    | Some b1 \<Rightarrow>
                        (case free (CK_SEQUENCE_BUFFER s2) of
                           None \<Rightarrow> Inl Undefined_Behaviour
                         | Some b2 \<Rightarrow>
                             Inl (Exit_Failure
                                    (s2\<lparr>CK_SCREEN_BUFFER := b1, CK_SEQUENCE_BUFFER := b2\<rparr>))))
               | Some (Some m) \<Rightarrow>
                   (case strcat m buffer of
                      None \<Rightarrow> Inl Undefined_Behaviour
                    | Some m' \<Rightarrow> Inr (s2\<lparr>CK_SCREEN_BUFFER := Allocated m'\<rparr>))))))"

text \<open>
  \<^verbatim>\<open>printf("\033[H%s", CK_SCREEN_BUFFER)\<close>, then the whole block is zeroed and
  the end index reset.
\<close>

definition ck_flip :: "ck_state \<Rightarrow> halt + ck_state" where
  "ck_flip s =
     (case read_str (CK_SCREEN_BUFFER s) of
        None \<Rightarrow> Inl Undefined_Behaviour
      | Some txt \<Rightarrow>
          (let s1 = s\<lparr>stdout_written := stdout_written s @ (ESC # ''[H'') @ txt\<rparr>
           in (case CK_SCREEN_BUFFER s1 of
                 Allocated m \<Rightarrow>
                   (case memset0 m (unat (CK_SCREEN_BUFFER_SIZE s1)) of
                      None \<Rightarrow> Inl Undefined_Behaviour
                    | Some m' \<Rightarrow>
                        Inr (s1\<lparr>CK_SCREEN_BUFFER := Allocated m', CK_SCREEN_BUFFER_END := 0\<rparr>))
               | _ \<Rightarrow> Inl Undefined_Behaviour)))"

subsection \<open>The sequence generator\<close>

text \<open>
  The generated forms return the pointer \<^verbatim>\<open>CK_SEQUENCE_BUFFER\<close>. A pointer
  is the name of the global it was copied from; what it shows is read from the state at
  the time of reading.
\<close>

datatype pointer = SCREEN_BUFFER_ptr | SEQUENCE_BUFFER_ptr

definition deref :: "ck_state \<Rightarrow> pointer \<Rightarrow> block" where
  "deref s p =
     (case p of
        SCREEN_BUFFER_ptr \<Rightarrow> CK_SCREEN_BUFFER s
      | SEQUENCE_BUFFER_ptr \<Rightarrow> CK_SEQUENCE_BUFFER s)"

text \<open>
  \<^verbatim>\<open>sprintf(CK_SEQUENCE_BUFFER, "\033[%d;2;%d;%d;%dm", where, r, g, b)\<close>: the
  arguments are \<^verbatim>\<open>unsigned char\<close>, promoted to \<^verbatim>\<open>int\<close>.
\<close>

definition ck_rgb ::
  "8 word \<Rightarrow> 8 word \<Rightarrow> 8 word \<Rightarrow> 8 word \<Rightarrow> ck_state \<Rightarrow> halt + pointer \<times> ck_state" where
  "ck_rgb wh r g b s =
     (case sprintf (CK_SEQUENCE_BUFFER s)
             ((ESC # ''['') @ decimal (unat wh) @ '';2;'' @ decimal (unat r) @ '';'' @
              decimal (unat g) @ '';'' @ decimal (unat b) @ ''m'') of
        None \<Rightarrow> Inl Undefined_Behaviour
      | Some blk \<Rightarrow> Inr (SEQUENCE_BUFFER_ptr, s\<lparr>CK_SEQUENCE_BUFFER := blk\<rparr>))"

definition ck_bg_rgb :: "8 word \<Rightarrow> 8 word \<Rightarrow> 8 word \<Rightarrow> ck_state \<Rightarrow> halt + pointer \<times> ck_state" where
  "ck_bg_rgb r g b = ck_rgb 48 r g b"

definition ck_fg_rgb :: "8 word \<Rightarrow> 8 word \<Rightarrow> 8 word \<Rightarrow> ck_state \<Rightarrow> halt + pointer \<times> ck_state" where
  "ck_fg_rgb r g b = ck_rgb 38 r g b"

text \<open>\<^verbatim>\<open>sprintf(CK_SEQUENCE_BUFFER, "\033[%zu;%zuH", y, x)\<close>\<close>

definition ck_cursor_goto :: "size_t \<Rightarrow> size_t \<Rightarrow> ck_state \<Rightarrow> halt + pointer \<times> ck_state" where
  "ck_cursor_goto x y s =
     (case sprintf (CK_SEQUENCE_BUFFER s)
             ((ESC # ''['') @ decimal (unat y) @ '';'' @ decimal (unat x) @ ''H'') of
        None \<Rightarrow> Inl Undefined_Behaviour
      | Some blk \<Rightarrow> Inr (SEQUENCE_BUFFER_ptr, s\<lparr>CK_SEQUENCE_BUFFER := blk\<rparr>))"

text \<open>\<^verbatim>\<open>sprintf(CK_SEQUENCE_BUFFER, "\033[%zu%c", amount, where)\<close>\<close>

definition ck_cursor_move :: "char \<Rightarrow> size_t \<Rightarrow> ck_state \<Rightarrow> halt + pointer \<times> ck_state" where
  "ck_cursor_move wh amount s =
     (case sprintf (CK_SEQUENCE_BUFFER s) ((ESC # ''['') @ decimal (unat amount) @ [wh]) of
        None \<Rightarrow> Inl Undefined_Behaviour
      | Some blk \<Rightarrow> Inr (SEQUENCE_BUFFER_ptr, s\<lparr>CK_SEQUENCE_BUFFER := blk\<rparr>))"

definition ck_cursor_up :: "size_t \<Rightarrow> ck_state \<Rightarrow> halt + pointer \<times> ck_state" where
  "ck_cursor_up amount = ck_cursor_move (CHR ''A'') amount"

definition ck_cursor_down :: "size_t \<Rightarrow> ck_state \<Rightarrow> halt + pointer \<times> ck_state" where
  "ck_cursor_down amount = ck_cursor_move (CHR ''B'') amount"

definition ck_cursor_right :: "size_t \<Rightarrow> ck_state \<Rightarrow> halt + pointer \<times> ck_state" where
  "ck_cursor_right amount = ck_cursor_move (CHR ''C'') amount"

definition ck_cursor_left :: "size_t \<Rightarrow> ck_state \<Rightarrow> halt + pointer \<times> ck_state" where
  "ck_cursor_left amount = ck_cursor_move (CHR ''D'') amount"

text \<open>
  The literal forms are macros that paste the spelling of their arguments (the
  preprocessor's \<^verbatim>\<open>#\<close>) between string literals. An argument is the text of
  the token as the caller wrote it.
\<close>

definition ck_bg_rgb_l :: "string \<Rightarrow> string \<Rightarrow> string \<Rightarrow> string" where
  "ck_bg_rgb_l r g b = (ESC # ''[48;2;'') @ r @ '';'' @ g @ '';'' @ b @ ''m''"

definition ck_fg_rgb_l :: "string \<Rightarrow> string \<Rightarrow> string \<Rightarrow> string" where
  "ck_fg_rgb_l r g b = (ESC # ''[38;2;'') @ r @ '';'' @ g @ '';'' @ b @ ''m''"

definition ck_cursor_goto_l :: "string \<Rightarrow> string \<Rightarrow> string" where
  "ck_cursor_goto_l x y = (ESC # ''['') @ y @ '';'' @ x @ ''H''"

definition ck_cursor_up_l :: "string \<Rightarrow> string" where
  "ck_cursor_up_l amount = (ESC # ''['') @ amount @ ''A''"

definition ck_cursor_down_l :: "string \<Rightarrow> string" where
  "ck_cursor_down_l amount = (ESC # ''['') @ amount @ ''B''"

definition ck_cursor_right_l :: "string \<Rightarrow> string" where
  "ck_cursor_right_l amount = (ESC # ''['') @ amount @ ''C''"

definition ck_cursor_left_l :: "string \<Rightarrow> string" where
  "ck_cursor_left_l amount = (ESC # ''['') @ amount @ ''D''"

subsection \<open>\<^verbatim>\<open>ck_current_console_size\<close>, both branches\<close>

text \<open>
  Unix-like: \<^verbatim>\<open>ioctl(0, TIOCGWINSZ, &newDims)\<close> fills a
  \<^verbatim>\<open>struct winsize\<close> of four \<^verbatim>\<open>unsigned short\<close>. The comparison with
  the \<^verbatim>\<open>size_t\<close> fields of \<^verbatim>\<open>knownSize\<close> converts them to
  \<^verbatim>\<open>size_t\<close>. The static \<^verbatim>\<open>knownSize\<close> is a field of the state.
\<close>

record winsize =
  ws_row :: "16 word"
  ws_col :: "16 word"
  ws_xpixel :: "16 word"
  ws_ypixel :: "16 word"

definition ck_current_console_size :: "winsize \<Rightarrow> ck_state \<Rightarrow> ck_console_size \<times> ck_state" where
  "ck_current_console_size newDims s =
     (let s1 = s\<lparr>knownSize := (knownSize s)\<lparr>has_changed :=
                  (ucast (ws_col newDims) \<noteq> width (knownSize s) \<or>
                   ucast (ws_row newDims) \<noteq> height (knownSize s))\<rparr>\<rparr>;
          s2 = (if has_changed (knownSize s1)
                then s1\<lparr>knownSize := (knownSize s1)\<lparr>width := ucast (ws_col newDims),
                                                    height := ucast (ws_row newDims)\<rparr>\<rparr>
                else s1)
      in (knownSize s2, s2))"

text \<open>
  Windows: \<^verbatim>\<open>GetConsoleScreenBufferInfo\<close> fills a rectangle of four signed
  \<^verbatim>\<open>SHORT\<close>. The differences are computed in \<^verbatim>\<open>int\<close> and converted
  to \<^verbatim>\<open>size_t\<close>.
\<close>

record small_rect =
  Left :: "16 word"
  Top :: "16 word"
  Right :: "16 word"
  Bottom :: "16 word"

definition ck_current_console_size_win32 ::
  "small_rect \<Rightarrow> ck_state \<Rightarrow> ck_console_size \<times> ck_state" where
  "ck_current_console_size_win32 srWindow s =
     (let newWidth = (word_of_int (sint (Right srWindow) - sint (Left srWindow) + 1) :: size_t);
          newHeight = (word_of_int (sint (Bottom srWindow) - sint (Top srWindow) + 1) :: size_t);
          s1 = s\<lparr>knownSize := (knownSize s)\<lparr>has_changed :=
                  (newWidth \<noteq> width (knownSize s) \<or> newHeight \<noteq> height (knownSize s))\<rparr>\<rparr>;
          s2 = (if has_changed (knownSize s1)
                then s1\<lparr>knownSize := (knownSize s1)\<lparr>width := newWidth, height := newHeight\<rparr>\<rparr>
                else s1)
      in (knownSize s2, s2))"

subsection \<open>\<^verbatim>\<open>getch\<close> and \<^verbatim>\<open>kbhit\<close> (Unix-like branch)\<close>

text \<open>
  \<^verbatim>\<open>tcsetattr(0, TCSANOW, &t)\<close>: the terminal takes the attributes at once. No
  call on the terminal is checked by the source, and the model lets each succeed.
\<close>

definition tcsetattr :: "termios \<Rightarrow> ck_state \<Rightarrow> ck_state" where
  "tcsetattr t s = s\<lparr>tty := t, events := events s @ [Tcsetattr t]\<rparr>"

text \<open>
  What happens on file descriptor 0 while a \<^verbatim>\<open>read\<close> waits on it with
  nothing there: nothing ever, the user types some bytes, or the input ends.
\<close>

datatype arrival = Never | Keys string | Hangup

text \<open>
  The number of bytes the stream \<^verbatim>\<open>stdin\<close> asks for in one
  \<^verbatim>\<open>read\<close>: the size of its buffer, which is the library's choice
  (\<^verbatim>\<open>BUFSIZ\<close> is 8192 with the GNU library).
\<close>

definition BUFSIZ :: nat where
  "BUFSIZ = 8192"

text \<open>
  \<^verbatim>\<open>getchar()\<close>, with \<open>None\<close> for \<^verbatim>\<open>EOF\<close>. A byte read ahead is
  returned without a system call. Otherwise the stream reads file descriptor 0 for a
  whole buffer: the read returns at once with the bytes that are there (the terminal
  is not in canonical mode when \<^verbatim>\<open>getch\<close> calls), with end of file when the
  input is closed, and waits when there is nothing yet; the first byte is returned and
  the others stay in the buffer of the stream. A read that waits for ever leaves the call
  where it is. Only the reads that return bytes are logged, since a stream at end of file
  may or may not ask the system again.
\<close>

definition getchar :: "arrival \<Rightarrow> ck_state \<Rightarrow> halt + char option \<times> ck_state" where
  "getchar later s =
     (case stdin_buffer s of
        c # rest \<Rightarrow> Inr (Some c, s\<lparr>stdin_buffer := rest\<rparr>)
      | [] \<Rightarrow>
          (case stdin_pending s of
             c # rest \<Rightarrow>
               Inr (Some c,
                    s\<lparr>stdin_pending := drop (BUFSIZ - 1) rest,
                      stdin_buffer := take (BUFSIZ - 1) rest,
                      events := events s @ [Read_Stdin (c # take (BUFSIZ - 1) rest)]\<rparr>)
           | [] \<Rightarrow>
               (if stdin_closed s then Inr (None, s)
                else
                  (case later of
                     Never \<Rightarrow> Inl (Waits_For_Input s)
                   | Keys [] \<Rightarrow> Inl (Waits_For_Input s)
                   | Keys (c # rest) \<Rightarrow>
                       Inr (Some c,
                            s\<lparr>stdin_pending := drop (BUFSIZ - 1) rest,
                              stdin_buffer := take (BUFSIZ - 1) rest,
                              events := events s @
                                [Read_Stdin (c # take (BUFSIZ - 1) rest)]\<rparr>)
                   | Hangup \<Rightarrow> Inr (None, s\<lparr>stdin_closed := True\<rparr>)))))"

text \<open>
  \<^verbatim>\<open>getch\<close>: the result of \<^verbatim>\<open>getchar\<close> is stored in a
  \<^verbatim>\<open>char\<close>, which turns \<^verbatim>\<open>EOF\<close> (that is \<open>-1\<close>) into the byte
  \<open>0xFF\<close>. While the read waits the terminal stays as the first
  \<^verbatim>\<open>tcsetattr\<close> left it.
\<close>

definition getch :: "arrival \<Rightarrow> ck_state \<Rightarrow> halt + char \<times> ck_state" where
  "getch later s =
     (let s1 = tcsetattr (CK_CONSOLE_SETTS s) s
      in (case getchar later s1 of
            Inl h \<Rightarrow> Inl h
          | Inr (r, s2) \<Rightarrow>
              (let ret = (case r of None \<Rightarrow> CHR 0xFF | Some c \<Rightarrow> c);
                   s3 = tcsetattr (CK_CONSOLE_ORIG_SETTS s2) s2
               in Inr (ret, s3))))"

text \<open>
  \<^verbatim>\<open>poll(fd_buff, 1, 0)\<close> looks at file descriptor 0, not at the stream: it
  sets \<^verbatim>\<open>POLLIN\<close> in \<^verbatim>\<open>revents\<close> when a byte is waiting there. At end
  of input the bit depends on the kind of file (set for a regular file, not set for a
  pipe whose writer has gone), so it is an argument. The function returns the bit as a
  \<^verbatim>\<open>_Bool\<close>.
\<close>

definition kbhit :: "bool \<Rightarrow> ck_state \<Rightarrow> bool \<times> ck_state" where
  "kbhit eof_pollin s =
     (let s1 = tcsetattr (CK_CONSOLE_SETTS s) s;
          pollin = (stdin_pending s1 \<noteq> [] \<or> stdin_closed s1 \<and> eof_pollin);
          s2 = s1\<lparr>events := events s1 @ [Poll pollin]\<rparr>;
          s3 = tcsetattr (CK_CONSOLE_ORIG_SETTS s2) s2
      in (pollin, s3))"


subsection \<open>Sequences of calls\<close>

text \<open>The three generated forms, as one type of requests.\<close>

datatype generated =
    Rgb "8 word" "8 word" "8 word" "8 word"
  | Cursor_Goto size_t size_t
  | Cursor_Move char size_t

fun generate :: "generated \<Rightarrow> ck_state \<Rightarrow> halt + pointer \<times> ck_state" where
  "generate (Rgb wh r g b) s = ck_rgb wh r g b s"
| "generate (Cursor_Goto x y) s = ck_cursor_goto x y s"
| "generate (Cursor_Move wh amount) s = ck_cursor_move wh amount s"

text \<open>
  What happens between \<^verbatim>\<open>ck_init\<close> and \<^verbatim>\<open>ck_end\<close>: a call of the
  library together with what the outside world answers to it, or, between two calls,
  bytes typed by the user and the end of the input.
\<close>

datatype call =
    Print string realloc_reply
  | Flip
  | Generate generated
  | Console_Size winsize
  | Getch arrival
  | Kbhit bool
  | Input string
  | End_Of_Input

fun exec :: "call \<Rightarrow> ck_state \<Rightarrow> halt + ck_state" where
  "exec (Print buffer reply) s = ck_print buffer reply s"
| "exec Flip s = ck_flip s"
| "exec (Generate g) s = map_sum id snd (generate g s)"
| "exec (Console_Size newDims) s = Inr (snd (ck_current_console_size newDims s))"
| "exec (Getch later) s = map_sum id snd (getch later s)"
| "exec (Kbhit eof_pollin) s = Inr (snd (kbhit eof_pollin s))"
| "exec (Input bytes) s =
     Inr (if stdin_closed s then s else s\<lparr>stdin_pending := stdin_pending s @ bytes\<rparr>)"
| "exec End_Of_Input s = Inr (s\<lparr>stdin_closed := True\<rparr>)"

fun run :: "call list \<Rightarrow> ck_state \<Rightarrow> halt + ck_state" where
  "run [] s = Inr s"
| "run (c # cs) s = (case exec c s of Inl h \<Rightarrow> Inl h | Inr s' \<Rightarrow> run cs s')"

text \<open>
  A session: a fresh process on a terminal with attributes \<open>t\<close> and input \<open>inp\<close>
  calls \<^verbatim>\<open>ck_init\<close>, both allocations succeed, and the calls follow.
\<close>

definition session :: "termios \<Rightarrow> string \<Rightarrow> call list \<Rightarrow> halt + ck_state" where
  "session t inp cs =
     (case ck_init True True (process_start t inp) of
        Inl h \<Rightarrow> Inl h
      | Inr s0 \<Rightarrow> run cs s0)"

text \<open>The state a computation returned with, if it returned.\<close>

definition returned :: "halt + 'a \<Rightarrow> 'a option" where
  "returned r = (case r of Inl h \<Rightarrow> None | Inr s \<Rightarrow> Some s)"


text \<open>What the caller of a generated form reads through the pointer it got back.\<close>

definition shown :: "halt + pointer \<times> ck_state \<Rightarrow> string option" where
  "shown r = (case r of Inl h \<Rightarrow> None | Inr (p, s) \<Rightarrow> read_str (deref s p))"

subsection \<open>Invariants and bounds\<close>

text \<open>
  The frame buffer is a live block of \<^verbatim>\<open>CK_SCREEN_BUFFER_SIZE\<close> bytes that
  holds a NUL; its text is no longer than \<^verbatim>\<open>CK_SCREEN_BUFFER_END\<close>, which is
  at most the size.
\<close>

definition frame_ok :: "ck_state \<Rightarrow> bool" where
  "frame_ok s =
     (case CK_SCREEN_BUFFER s of
        Allocated m \<Rightarrow>
          length m = unat (CK_SCREEN_BUFFER_SIZE s) \<and>
          length (c_str m) < length m \<and>
          length (c_str m) \<le> unat (CK_SCREEN_BUFFER_END s) \<and>
          unat (CK_SCREEN_BUFFER_END s) \<le> unat (CK_SCREEN_BUFFER_SIZE s)
      | _ \<Rightarrow> False)"

definition sequence_ready :: "ck_state \<Rightarrow> bool" where
  "sequence_ready s =
     (case CK_SEQUENCE_BUFFER s of
        Allocated q \<Rightarrow> length q = CK_SEQUENCE_BUFFER_LEN
      | _ \<Rightarrow> False)"

text \<open>The attributes with echo and line buffering switched off.\<close>

definition raw_mode :: "termios \<Rightarrow> termios" where
  "raw_mode t = t\<lparr>c_lflag := c_lflag t AND (NOT ECHO AND NOT ICANON)\<rparr>"

definition terminal_ok :: "termios \<Rightarrow> ck_state \<Rightarrow> bool" where
  "terminal_ok t s =
     (tty s = t \<and> CK_CONSOLE_ORIG_SETTS s = t \<and> CK_CONSOLE_SETTS s = raw_mode t)"

text \<open>
  The arithmetic of \<^verbatim>\<open>ck_print\<close> does not wrap along a sequence of calls:
  \<open>e\<close> is the value of \<^verbatim>\<open>CK_SCREEN_BUFFER_END\<close> before the sequence, and
  each append leaves room for one more step of \<^verbatim>\<open>CK_ALLOC_SIZE\<close> below
  \<open>2 ^ 64\<close>. The end index is at most the size of the block, so a block and a string
  that lie in one 64-bit address space, next to a hundred more bytes, are within bounds;
  the allocator of the model, which can serve any size, makes the condition necessary.
\<close>

fun within_bounds :: "nat \<Rightarrow> call list \<Rightarrow> bool" where
  "within_bounds e [] = True"
| "within_bounds e (Print buffer reply # cs) =
     (e + length (c_str buffer) + 2 + 100 \<le> 2 ^ 64 \<and>
      within_bounds (e + length (c_str buffer) + 2) cs)"
| "within_bounds e (Flip # cs) = within_bounds 0 cs"
| "within_bounds e (c # cs) = within_bounds e cs"

text \<open>The text of each generated form, as the interface gives it:
  \<^verbatim>\<open>ESC[{w};2;{r};{g};{b}m\<close>, \<^verbatim>\<open>ESC[{row};{col}H\<close> and
  \<^verbatim>\<open>ESC[{n}{A|B|C|D}\<close>.\<close>

fun sequence_text :: "generated \<Rightarrow> string" where
  "sequence_text (Rgb wh r g b) =
     [ESC, CHR ''[''] @ decimal (unat wh) @ '';2;'' @ decimal (unat r) @ '';'' @
     decimal (unat g) @ '';'' @ decimal (unat b) @ ''m''"
| "sequence_text (Cursor_Goto x y) =
     [ESC, CHR ''[''] @ decimal (unat y) @ '';'' @ decimal (unat x) @ ''H''"
| "sequence_text (Cursor_Move wh amount) =
     [ESC, CHR ''[''] @ decimal (unat amount) @ [wh]"

text \<open>
  The size the loop of \<^verbatim>\<open>ck_print\<close> stops at when it starts from \<open>sz\<close>
  and \<open>need\<close> bytes are asked for: \<open>sz\<close> plus the least number of steps of 100
  that reaches \<open>need\<close>.
\<close>

definition grown :: "nat \<Rightarrow> nat \<Rightarrow> nat" where
  "grown need sz = sz + 100 * ((need - sz + 99) div 100)"

text \<open>A sequence of appends that the allocator serves, and the texts they append.\<close>

definition appends :: "(string \<times> (nat \<Rightarrow> char)) list \<Rightarrow> call list" where
  "appends bjs = map (\<lambda>(buffer, junk). Print buffer (Realloc_Gives junk)) bjs"

definition texts :: "(string \<times> (nat \<Rightarrow> char)) list \<Rightarrow> string list" where
  "texts bjs = map (\<lambda>(buffer, junk). c_str buffer) bjs"

text \<open>An allocator whose fresh bytes all hold a question mark, for concrete runs.\<close>

definition stale_bytes :: "nat \<Rightarrow> char" where
  "stale_bytes i = CHR ''?''"

text \<open>
  The dimensions a size query compares: the retained ones and the reported ones, as
  \<^verbatim>\<open>size_t\<close>; and the calls that are size queries.
\<close>

definition retained :: "ck_state \<Rightarrow> size_t \<times> size_t" where
  "retained s = (width (knownSize s), height (knownSize s))"

definition reported :: "winsize \<Rightarrow> size_t \<times> size_t" where
  "reported newDims = (ucast (ws_col newDims), ucast (ws_row newDims))"

definition reported_win32 :: "small_rect \<Rightarrow> size_t \<times> size_t" where
  "reported_win32 srWindow =
     (word_of_int (sint (Right srWindow) - sint (Left srWindow) + 1),
      word_of_int (sint (Bottom srWindow) - sint (Top srWindow) + 1))"

fun queries_size :: "call \<Rightarrow> bool" where
  "queries_size (Console_Size newDims) = True"
| "queries_size c = False"

section \<open>Lemmas\<close>

subsection \<open>C strings, and the loop of \<^verbatim>\<open>ck_print\<close>\<close>

lemma c_str_length_le: "length (c_str m) \<le> length m"
  by (simp add: c_str_def length_takeWhile_le)

lemma NUL_notin_c_str: "NUL \<notin> set (c_str m)"
  by (auto simp: c_str_def dest: set_takeWhileD)

lemma c_str_no_NUL: "NUL \<notin> set xs \<Longrightarrow> c_str xs = xs"
  by (auto simp: c_str_def)

lemma c_str_append_NUL: "NUL \<notin> set xs \<Longrightarrow> c_str (xs @ NUL # ys) = xs"
  by (auto simp: c_str_def takeWhile_tail)

lemma c_str_split: "length (c_str m) < length m \<Longrightarrow> \<exists>rest. m = c_str m @ NUL # rest"
proof -
  assume a: "length (c_str m) < length m"
  let ?d = "dropWhile (\<lambda>c. c \<noteq> NUL) m"
  have m: "m = c_str m @ ?d" by (simp add: c_str_def)
  have "?d \<noteq> []" using a m by (metis append_Nil2 less_irrefl)
  then have "hd ?d = NUL" using hd_dropWhile [of "\<lambda>c. c \<noteq> NUL" m] by simp
  with \<open>?d \<noteq> []\<close> have "?d = NUL # tl ?d" by (metis list.collapse)
  with m show ?thesis by metis
qed

lemma take_c_str: "take (length (c_str m)) m = c_str m"
  unfolding c_str_def by (rule takeWhile_eq_take [symmetric])

lemma NUL_in_iff: "NUL \<in> set m \<longleftrightarrow> length (c_str m) < length m"
proof
  assume "NUL \<in> set m"
  then have "c_str m \<noteq> m" using NUL_notin_c_str [of m] by auto
  then show "length (c_str m) < length m"
    using c_str_length_le [of m] take_c_str [of m] by (cases "length (c_str m) = length m") auto
next
  assume "length (c_str m) < length m"
  then obtain rest where "m = c_str m @ NUL # rest" using c_str_split by blast
  then show "NUL \<in> set m" by (metis in_set_conv_decomp)
qed

lemma strcat_Some:
  assumes "strcat m src = Some m'"
  shows "c_str m' = c_str m @ c_str src \<and> length m' = length m"
proof -
  let ?k = "length (c_str m)"
  let ?d = "c_str src @ [NUL]"
  from assms have b: "?k < length m" "?k + length ?d \<le> length m"
    and m': "m' = take ?k m @ ?d @ drop (?k + length ?d) m"
    by (auto simp: strcat_def Let_def split: if_splits)
  have "m' = (c_str m @ c_str src) @ NUL # drop (?k + length ?d) m"
    using m' by (simp add: take_c_str)
  moreover have "NUL \<notin> set (c_str m @ c_str src)" by (simp add: NUL_notin_c_str)
  ultimately have "c_str m' = c_str m @ c_str src" by (metis c_str_append_NUL)
  moreover have "length m' = length m" using m' b by simp
  ultimately show ?thesis by simp
qed

lemma strcat_fits:
  "length (c_str m) < length m \<Longrightarrow> length (c_str m) + length (c_str src) + 1 \<le> length m
     \<Longrightarrow> \<exists>m'. strcat m src = Some m'"
  by (simp add: strcat_def Let_def)

lemma c_str_take_append:
  assumes "length (c_str m) < length m" "length (c_str m) < n"
  shows "c_str (take n m @ js) = c_str m"
proof -
  obtain rest where m: "m = c_str m @ NUL # rest" using assms(1) c_str_split by blast
  let ?k = "length (c_str m)"
  have "take n m = take n (c_str m @ NUL # rest)" using m by simp
  also have "\<dots> = c_str m @ take (n - ?k) (NUL # rest)" using assms(2) by simp
  also have "\<dots> = c_str m @ NUL # take (n - ?k - 1) rest"
    using assms(2) by (cases "n - ?k") auto
  finally have "take n m @ js = c_str m @ NUL # (take (n - ?k - 1) rest @ js)" by simp
  then show ?thesis using c_str_append_NUL [OF NUL_notin_c_str] by metis
qed



lemma ceil_step:
  assumes "0 < (d::nat)"
  shows "(d + 99) div 100 = Suc ((d - 100 + 99) div 100)"
proof (cases "100 \<le> d")
  case True
  then have "d + 99 = (d - 100 + 99) + 100" by simp
  then have "(d + 99) div 100 = ((d - 100 + 99) + 100) div 100" by simp
  also have "\<dots> = Suc ((d - 100 + 99) div 100)" by (simp only: div_add_self2)
  finally show ?thesis .
next
  case False
  then have "(d + 99) div 100 = 1" using assms by (intro div_nat_eqI) simp_all
  moreover have "(d - 100 + 99) div 100 = 0" using False by simp
  ultimately show ?thesis by simp
qed

lemma ck_print_loop_terminates:
  assumes "unat e + unat l + 1 + 100 \<le> 2 ^ 64"
  shows "\<exists>sz'. ck_print_loop e l sz = Some sz' \<and>
           unat sz' = unat sz + 100 * ((unat e + unat l + 1 - unat sz + 99) div 100)"
proof -
  define need where "need = unat e + unat l + 1"
  have el: "unat (e + l) = unat e + unat l"
    using assms by (simp add: unat_add_lem [THEN iffD1])
  have need: "unat (e + l + 1) = need"
    using assms el unat_add_lem [of "e + l" 1] by (simp add: need_def)
  have bound: "need + 100 \<le> 2 ^ 64"
    using assms by (simp add: need_def)
  have "\<exists>sz'. ck_print_loop e l sz = Some sz' \<and>
          unat sz' = unat sz + 100 * ((need - unat sz + 99) div 100)"
  proof (induction "need - unat sz" arbitrary: sz rule: less_induct)
    case less
    show ?case
    proof (cases "unat sz < need")
      case True
      then have gt: "e + l + 1 > sz" using need by (simp add: word_less_nat_alt)
      have step: "unat (sz + CK_ALLOC_SIZE) = unat sz + 100"
        using True bound unat_add_lem [of sz CK_ALLOC_SIZE] unfolding CK_ALLOC_SIZE_def
        by simp
      have "need - unat (sz + CK_ALLOC_SIZE) < need - unat sz"
        using True step by simp
      from less [OF this] obtain sz' where
        r: "ck_print_loop e l (sz + CK_ALLOC_SIZE) = Some sz'"
        and u: "unat sz' = unat (sz + CK_ALLOC_SIZE) +
                  100 * ((need - unat (sz + CK_ALLOC_SIZE) + 99) div 100)"
        by blast
      have "ck_print_loop e l sz = Some sz'"
        using gt r by (subst ck_print_loop.simps) simp
      moreover have "unat sz' = unat sz + 100 * ((need - unat sz + 99) div 100)"
      proof -
        define k where "k = (need - (unat sz + 100) + 99) div 100"
        define K where "K = (need - unat sz + 99) div 100"
        have "0 < need - unat sz" using True by simp
        from ceil_step [OF this] have "K = Suc k"
          unfolding K_def k_def by (simp only: diff_diff_left)
        moreover have "unat sz' = unat sz + 100 + 100 * k"
          using u [unfolded step, folded k_def] .
        ultimately have "unat sz' = unat sz + 100 * K" by simp
        then show ?thesis unfolding K_def .
      qed
      ultimately show ?thesis by blast
    next
      case False
      then have "\<not> e + l + 1 > sz" using need by (simp add: word_less_nat_alt)
      then have "ck_print_loop e l sz = Some sz"
        by (subst ck_print_loop.simps) simp
      moreover have "(need - unat sz + 99) div 100 = 0" using False by simp
      ultimately show ?thesis by simp
    qed
  qed
  then show ?thesis by (simp only: need_def)
qed

lemma ceil_ge: "(d::nat) \<le> 100 * ((d + 99) div 100)"
proof -
  have "100 * ((d + 99) div 100) + (d + 99) mod 100 = d + 99" by simp
  moreover have "(d + 99) mod 100 < 100" by simp
  ultimately show ?thesis by linarith
qed

lemma ceil_lt: "100 * ((d + 99) div 100) < (d::nat) + 100"
proof -
  have "100 * ((d + 99) div 100) + (d + 99) mod 100 = d + 99" by simp
  then show ?thesis by linarith
qed

lemma unat_strlen: "length (c_str b) < 2 ^ 64 \<Longrightarrow> unat (strlen b) = length (c_str b)"
  by (simp add: strlen_def unat_of_nat)

lemma unat_strlen_Suc:
  assumes "length (c_str b) + 1 < 2 ^ 64"
  shows "unat (strlen b + 1) = length (c_str b) + 1"
proof -
  have "unat (strlen b) = length (c_str b)" using assms by (simp add: unat_strlen)
  then show ?thesis using assms unat_add_lem [of "strlen b" 1] by simp
qed

lemma grown_ge_need: "need \<le> grown need sz"
  using ceil_ge [of "need - sz"] by (simp add: grown_def)

lemma grown_ge_size: "sz \<le> grown need sz"
  by (simp add: grown_def)

lemma ck_print_returns:
  assumes ok: "frame_ok s"
    and bound: "unat (CK_SCREEN_BUFFER_END s) + length (c_str buffer) + 2 + 100 \<le> 2 ^ 64"
  shows "\<exists>m m' s'. ck_print buffer (Realloc_Gives junk) s = Inr s' \<and>
           CK_SCREEN_BUFFER s = Allocated m \<and>
           s' = s\<lparr>CK_SCREEN_BUFFER_SIZE := CK_SCREEN_BUFFER_SIZE s',
                  CK_SCREEN_BUFFER_END := CK_SCREEN_BUFFER_END s',
                  CK_SCREEN_BUFFER := Allocated m'\<rparr> \<and>
           unat (CK_SCREEN_BUFFER_END s') =
             unat (CK_SCREEN_BUFFER_END s) + length (c_str buffer) + 2 \<and>
           unat (CK_SCREEN_BUFFER_SIZE s') =
             grown (unat (CK_SCREEN_BUFFER_END s) + length (c_str buffer) + 2)
               (unat (CK_SCREEN_BUFFER_SIZE s)) \<and>
           c_str m' = c_str m @ c_str buffer \<and>
           length m' = unat (CK_SCREEN_BUFFER_SIZE s')"
proof -
  define e where "e = unat (CK_SCREEN_BUFFER_END s)"
  define n where "n = length (c_str buffer)"
  define len where "len = strlen buffer + 1"
  from ok obtain m where m: "CK_SCREEN_BUFFER s = Allocated m"
    and lm: "length m = unat (CK_SCREEN_BUFFER_SIZE s)"
    and km: "length (c_str m) < length m"
    and ke: "length (c_str m) \<le> e"
    by (auto simp: frame_ok_def e_def split: block.splits)
  have len: "unat len = n + 1"
    using bound unat_strlen_Suc [of buffer] by (simp add: len_def n_def)
  have lb: "unat (CK_SCREEN_BUFFER_END s) + unat len + 1 + 100 \<le> 2 ^ 64"
    using bound len by (simp add: n_def)
  from ck_print_loop_terminates [OF lb, of "CK_SCREEN_BUFFER_SIZE s"]
  obtain sz' where loop: "ck_print_loop (CK_SCREEN_BUFFER_END s) len (CK_SCREEN_BUFFER_SIZE s) = Some sz'"
    and usz: "unat sz' = grown (e + n + 2) (unat (CK_SCREEN_BUFFER_SIZE s))"
    using len by (auto simp: grown_def e_def)
  define N where "N = unat sz'"
  have N1: "e + n + 2 \<le> N" and N2: "length m \<le> N"
    using grown_ge_need [of "e + n + 2" "unat (CK_SCREEN_BUFFER_SIZE s)"]
      grown_ge_size [of "unat (CK_SCREEN_BUFFER_SIZE s)" "e + n + 2"] usz lm
    by (simp_all add: N_def)
  have e1: "unat (CK_SCREEN_BUFFER_END s + len) = e + n + 1"
    using bound len unat_add_lem [of "CK_SCREEN_BUFFER_END s" len] by (simp add: e_def n_def)
  have e2: "unat (CK_SCREEN_BUFFER_END s + len + 1) = e + n + 2"
    using bound e1 unat_add_lem [of "CK_SCREEN_BUFFER_END s + len" 1] by (simp add: e_def n_def)
  define m2 where "m2 = take N m @ map junk [length m..<N]"
  have lm2: "length m2 = N" using N2 by (simp add: m2_def)
  have cm2: "c_str m2 = c_str m"
    unfolding m2_def using km N2 by (intro c_str_take_append) simp_all
  have "\<exists>m'. strcat m2 buffer = Some m'"
    using km N1 N2 ke lm2 cm2 by (intro strcat_fits) (simp_all add: n_def)
  then obtain m' where cat: "strcat m2 buffer = Some m'" by blast
  from strcat_Some [OF cat] have cm': "c_str m' = c_str m @ c_str buffer"
    and lm': "length m' = N" using cm2 lm2 by simp_all
  define s' where "s' = s\<lparr>CK_SCREEN_BUFFER_SIZE := sz',
      CK_SCREEN_BUFFER_END := CK_SCREEN_BUFFER_END s + len + 1,
      CK_SCREEN_BUFFER := Allocated m'\<rparr>"
  have "ck_print buffer (Realloc_Gives junk) s = Inr s'"
    using loop m cat
    by (simp add: ck_print_def Let_def len_def [symmetric] N_def [symmetric] m2_def [symmetric] s'_def)
  moreover have "s' = s\<lparr>CK_SCREEN_BUFFER_SIZE := CK_SCREEN_BUFFER_SIZE s',
                  CK_SCREEN_BUFFER_END := CK_SCREEN_BUFFER_END s',
                  CK_SCREEN_BUFFER := Allocated m'\<rparr>"
    by (simp add: s'_def)
  moreover have "unat (CK_SCREEN_BUFFER_END s') = e + n + 2" using e2 by (simp add: s'_def)
  moreover have "unat (CK_SCREEN_BUFFER_SIZE s') = grown (e + n + 2) (unat (CK_SCREEN_BUFFER_SIZE s))"
    using usz by (simp add: s'_def)
  moreover have "length m' = unat (CK_SCREEN_BUFFER_SIZE s')" using lm' by (simp add: s'_def N_def)
  ultimately show ?thesis using m cm' unfolding e_def n_def by blast
qed

subsection \<open>Appends and flushes keep the frame buffer well formed\<close>

lemma ck_print_keeps_frame_ok:
  assumes "frame_ok s"
    and "unat (CK_SCREEN_BUFFER_END s) + length (c_str buffer) + 2 + 100 \<le> 2 ^ 64"
    and "ck_print buffer reply s = Inr s'"
  shows "frame_ok s'"
proof (cases reply)
  case Realloc_Fails
  from assms(1) obtain m where "CK_SCREEN_BUFFER s = Allocated m"
    by (auto simp: frame_ok_def split: block.splits)
  then show ?thesis using assms(3) Realloc_Fails
    by (auto simp: ck_print_def Let_def split: option.splits)
next
  case (Realloc_Gives junk)
  from ck_print_returns [OF assms(1,2), of junk] assms(3) Realloc_Gives
  obtain m m' where m: "CK_SCREEN_BUFFER s = Allocated m"
    and s': "CK_SCREEN_BUFFER s' = Allocated m'"
    and e: "unat (CK_SCREEN_BUFFER_END s') =
             unat (CK_SCREEN_BUFFER_END s) + length (c_str buffer) + 2"
    and z: "unat (CK_SCREEN_BUFFER_SIZE s') =
             grown (unat (CK_SCREEN_BUFFER_END s) + length (c_str buffer) + 2)
               (unat (CK_SCREEN_BUFFER_SIZE s))"
    and c: "c_str m' = c_str m @ c_str buffer"
    and l: "length m' = unat (CK_SCREEN_BUFFER_SIZE s')"
    by (metis Inr_inject ck_state.select_convs(3) ck_state.surjective ck_state.update_convs(3))
  have "length (c_str m) \<le> unat (CK_SCREEN_BUFFER_END s)"
    using assms(1) m by (simp add: frame_ok_def)
  moreover have "unat (CK_SCREEN_BUFFER_END s') \<le> unat (CK_SCREEN_BUFFER_SIZE s')"
    using e z grown_ge_need by metis
  ultimately show ?thesis using s' e c l by (simp add: frame_ok_def)
qed

lemma ck_print_fails:
  assumes "frame_ok s" and "sequence_ready s"
    and "unat (CK_SCREEN_BUFFER_END s) + length (c_str buffer) + 2 + 100 \<le> 2 ^ 64"
  shows "\<exists>s'. ck_print buffer Realloc_Fails s = Inl (Exit_Failure s') \<and>
           CK_SCREEN_BUFFER s' = Released \<and> CK_SEQUENCE_BUFFER s' = Released"
proof -
  from assms(1) obtain m where m: "CK_SCREEN_BUFFER s = Allocated m"
    by (auto simp: frame_ok_def split: block.splits)
  from assms(2) obtain q where q: "CK_SEQUENCE_BUFFER s = Allocated q"
    by (auto simp: sequence_ready_def split: block.splits)
  from ck_print_returns [OF assms(1,3), of "\<lambda>i. NUL"]
  obtain sz where "ck_print_loop (CK_SCREEN_BUFFER_END s) (strlen buffer + 1)
      (CK_SCREEN_BUFFER_SIZE s) = Some sz"
    by (auto simp: ck_print_def Let_def split: option.splits)
  then show ?thesis using m q by (simp add: ck_print_def Let_def)
qed

lemma ck_flip_returns:
  assumes "frame_ok s"
  shows "\<exists>m. CK_SCREEN_BUFFER s = Allocated m \<and>
           ck_flip s = Inr (s\<lparr>stdout_written := stdout_written s @ (ESC # ''[H'') @ c_str m,
                               CK_SCREEN_BUFFER := Allocated (replicate (length m) NUL),
                               CK_SCREEN_BUFFER_END := 0\<rparr>)"
proof -
  from assms obtain m where m: "CK_SCREEN_BUFFER s = Allocated m"
    and lm: "length m = unat (CK_SCREEN_BUFFER_SIZE s)"
    and km: "length (c_str m) < length m"
    by (auto simp: frame_ok_def split: block.splits)
  have "NUL \<in> set m" using km by (simp add: NUL_in_iff)
  then show ?thesis using m lm
    by (simp add: ck_flip_def read_str_def memset0_def Let_def)
qed

lemma c_str_replicate_NUL: "c_str (replicate n NUL) = []"
  by (cases n) (simp_all add: c_str_def)

lemma ck_flip_keeps_frame_ok:
  assumes "frame_ok s" and "ck_flip s = Inr s'"
  shows "frame_ok s' \<and> CK_SCREEN_BUFFER_END s' = 0 \<and>
         CK_SCREEN_BUFFER_SIZE s' = CK_SCREEN_BUFFER_SIZE s"
proof -
  from assms(1) obtain m where m: "CK_SCREEN_BUFFER s = Allocated m"
    and lm: "length m = unat (CK_SCREEN_BUFFER_SIZE s)"
    and km: "length (c_str m) < length m"
    by (auto simp: frame_ok_def split: block.splits)
  from ck_flip_returns [OF assms(1)] assms(2) m
  have s': "s' = s\<lparr>stdout_written := stdout_written s @ (ESC # ''[H'') @ c_str m,
                               CK_SCREEN_BUFFER := Allocated (replicate (length m) NUL),
                               CK_SCREEN_BUFFER_END := 0\<rparr>" by simp
  show ?thesis using lm km by (simp add: s' frame_ok_def c_str_replicate_NUL)
qed

subsection \<open>Decimal texts and the sequence buffer\<close>

lemma digit_char_not_NUL: "d < 10 \<Longrightarrow> digit_char d \<noteq> NUL"
proof -
  assume "d < 10"
  then have "digit_char d \<in> set ''0123456789''"
    unfolding digit_char_def by (intro nth_mem) simp
  then show ?thesis by auto
qed

lemma NUL_notin_decimal: "NUL \<notin> set (decimal n)"
proof (induction n rule: decimal.induct)
  case (1 n)
  show ?case
  proof (cases "n < 10")
    case True
    then show ?thesis using digit_char_not_NUL [of n] by (subst decimal.simps) auto
  next
    case False
    have "digit_char (n mod 10) \<noteq> NUL" by (rule digit_char_not_NUL) simp
    then show ?thesis using False 1 by (subst decimal.simps) auto
  qed
qed

lemma length_decimal: "0 < k \<Longrightarrow> n < 10 ^ k \<Longrightarrow> length (decimal n) \<le> k"
proof (induction n arbitrary: k rule: decimal.induct)
  case (1 n)
  show ?case
  proof (cases "n < 10")
    case True
    then show ?thesis using 1(2) by (subst decimal.simps) simp
  next
    case False
    then have "1 < k" using 1(2,3) by (cases "k = 1") auto
    then obtain j where k: "k = Suc j" and j: "0 < j" by (cases k) auto
    have "n div 10 < 10 ^ j" using 1(3) k by (simp add: less_mult_imp_div_less mult.commute)
    from 1(1) [OF False j this] show ?thesis using False k by (subst decimal.simps) simp
  qed
qed

lemma length_decimal_8: "length (decimal (unat (w :: 8 word))) \<le> 3"
proof -
  have "unat w < 2 ^ 8" using unsigned_less [of w, where ?'a = nat] by simp
  then have "unat w < 10 ^ 3" by simp
  then show ?thesis by (intro length_decimal) simp_all
qed

lemma length_decimal_64: "length (decimal (unat (w :: 64 word))) \<le> 20"
proof -
  have "unat w < 2 ^ 64" using unsigned_less [of w, where ?'a = nat] by simp
  then have "unat w < 10 ^ 20" by simp
  then show ?thesis by (intro length_decimal) simp_all
qed

lemma length_sequence_text: "length (sequence_text g) \<le> 44"
proof (cases g)
  case (Rgb wh r g b)
  then show ?thesis
    using length_decimal_8 [of wh] length_decimal_8 [of r] length_decimal_8 [of g]
      length_decimal_8 [of b] by simp
next
  case (Cursor_Goto x y)
  then show ?thesis using length_decimal_64 [of x] length_decimal_64 [of y] by simp
next
  case (Cursor_Move wh amount)
  then show ?thesis using length_decimal_64 [of amount] by simp
qed

lemma c_str_append_NUL_any: "c_str (txt @ NUL # rest) = c_str txt"
proof (cases "NUL \<in> set txt")
  case True
  then show ?thesis unfolding c_str_def by (intro takeWhile_append1) simp_all
next
  case False
  then show ?thesis by (simp add: c_str_append_NUL c_str_no_NUL)
qed

lemma generate_returns:
  assumes "sequence_ready s"
  shows "\<exists>q. generate g s =
           Inr (SEQUENCE_BUFFER_ptr,
                s\<lparr>CK_SEQUENCE_BUFFER := Allocated (sequence_text g @ [NUL] @ q)\<rparr>) \<and>
           length (sequence_text g @ [NUL] @ q) = CK_SEQUENCE_BUFFER_LEN"
proof -
  from assms obtain m where m: "CK_SEQUENCE_BUFFER s = Allocated m" and lm: "length m = 61"
    by (auto simp: sequence_ready_def CK_SEQUENCE_BUFFER_LEN_def split: block.splits)
  have fit: "length (sequence_text g) + 1 \<le> length m"
    using length_sequence_text [of g] lm by simp
  then have sp: "sprintf (CK_SEQUENCE_BUFFER s) (sequence_text g) =
      Some (Allocated (sequence_text g @ [NUL] @ drop (length (sequence_text g) + 1) m))"
    using m by (simp add: sprintf_def)
  have "generate g s = Inr (SEQUENCE_BUFFER_ptr,
      s\<lparr>CK_SEQUENCE_BUFFER :=
          Allocated (sequence_text g @ [NUL] @ drop (length (sequence_text g) + 1) m)\<rparr>)"
    using sp by (cases g) (simp_all add: ck_rgb_def ck_cursor_goto_def ck_cursor_move_def)
  moreover have "length (sequence_text g @ [NUL] @ drop (length (sequence_text g) + 1) m) =
      CK_SEQUENCE_BUFFER_LEN"
    using fit lm by (simp add: CK_SEQUENCE_BUFFER_LEN_def)
  ultimately show ?thesis by blast
qed

lemma generate_shown:
  assumes "sequence_ready s"
  shows "shown (generate g s) = Some (c_str (sequence_text g))"
proof -
  from generate_returns [OF assms, of g] obtain q where
    "generate g s = Inr (SEQUENCE_BUFFER_ptr,
                s\<lparr>CK_SEQUENCE_BUFFER := Allocated (sequence_text g @ [NUL] @ q)\<rparr>)"
    by blast
  then show ?thesis
    by (simp add: shown_def deref_def read_str_def c_str_append_NUL_any)
qed

subsection \<open>Invariants along a sequence of calls\<close>

lemma getch_frame:
  "getch later s = Inr (c, s') \<Longrightarrow>
     CK_SCREEN_BUFFER s' = CK_SCREEN_BUFFER s \<and>
     CK_SCREEN_BUFFER_SIZE s' = CK_SCREEN_BUFFER_SIZE s \<and>
     CK_SCREEN_BUFFER_END s' = CK_SCREEN_BUFFER_END s \<and>
     CK_SEQUENCE_BUFFER s' = CK_SEQUENCE_BUFFER s"
  by (auto simp: getch_def getchar_def tcsetattr_def Let_def
      split: list.splits if_splits arrival.splits)

lemma kbhit_frame:
  "kbhit e s = (b, s') \<Longrightarrow>
     CK_SCREEN_BUFFER s' = CK_SCREEN_BUFFER s \<and>
     CK_SCREEN_BUFFER_SIZE s' = CK_SCREEN_BUFFER_SIZE s \<and>
     CK_SCREEN_BUFFER_END s' = CK_SCREEN_BUFFER_END s \<and>
     CK_SEQUENCE_BUFFER s' = CK_SEQUENCE_BUFFER s"
  by (auto simp: kbhit_def tcsetattr_def Let_def)

lemma console_size_frame:
  "ck_current_console_size d s = (r, s') \<Longrightarrow>
     CK_SCREEN_BUFFER s' = CK_SCREEN_BUFFER s \<and>
     CK_SCREEN_BUFFER_SIZE s' = CK_SCREEN_BUFFER_SIZE s \<and>
     CK_SCREEN_BUFFER_END s' = CK_SCREEN_BUFFER_END s \<and>
     CK_SEQUENCE_BUFFER s' = CK_SEQUENCE_BUFFER s"
  by (auto simp: ck_current_console_size_def Let_def split: if_splits)

lemma generate_frame:
  "generate g s = Inr (p, s') \<Longrightarrow>
     CK_SCREEN_BUFFER s' = CK_SCREEN_BUFFER s \<and>
     CK_SCREEN_BUFFER_SIZE s' = CK_SCREEN_BUFFER_SIZE s \<and>
     CK_SCREEN_BUFFER_END s' = CK_SCREEN_BUFFER_END s"
  by (cases g)
     (auto simp: ck_rgb_def ck_cursor_goto_def ck_cursor_move_def split: option.splits)

lemma frame_ok_cong:
  "CK_SCREEN_BUFFER s' = CK_SCREEN_BUFFER s \<Longrightarrow>
   CK_SCREEN_BUFFER_SIZE s' = CK_SCREEN_BUFFER_SIZE s \<Longrightarrow>
   CK_SCREEN_BUFFER_END s' = CK_SCREEN_BUFFER_END s \<Longrightarrow> frame_ok s' = frame_ok s"
  by (simp add: frame_ok_def split: block.splits)

lemma exec_frame:
  assumes "frame_ok s" and "within_bounds (unat (CK_SCREEN_BUFFER_END s)) (c # cs)"
    and "exec c s = Inr s'"
  shows "frame_ok s' \<and> within_bounds (unat (CK_SCREEN_BUFFER_END s')) cs \<and>
         unat (CK_SCREEN_BUFFER_SIZE s) \<le> unat (CK_SCREEN_BUFFER_SIZE s')"
proof (cases c)
  case (Print buffer reply)
  have b: "unat (CK_SCREEN_BUFFER_END s) + length (c_str buffer) + 2 + 100 \<le> 2 ^ 64"
    and w: "within_bounds (unat (CK_SCREEN_BUFFER_END s) + length (c_str buffer) + 2) cs"
    using assms(2) Print by simp_all
  have p: "ck_print buffer reply s = Inr s'" using assms(3) Print by simp
  have f: "frame_ok s'" by (rule ck_print_keeps_frame_ok [OF assms(1) b p])
  obtain junk where r: "reply = Realloc_Gives junk"
  proof (cases reply)
    case Realloc_Fails
    from assms(1) obtain m where "CK_SCREEN_BUFFER s = Allocated m"
      by (auto simp: frame_ok_def split: block.splits)
    then have False using p Realloc_Fails
      by (auto simp: ck_print_def Let_def split: option.splits)
    then show ?thesis ..
  next
    case (Realloc_Gives junk)
    then show ?thesis using that by blast
  qed
  from ck_print_returns [OF assms(1) b, of junk] p r
  have e: "unat (CK_SCREEN_BUFFER_END s') =
             unat (CK_SCREEN_BUFFER_END s) + length (c_str buffer) + 2"
    and z: "unat (CK_SCREEN_BUFFER_SIZE s') =
             grown (unat (CK_SCREEN_BUFFER_END s) + length (c_str buffer) + 2)
               (unat (CK_SCREEN_BUFFER_SIZE s))"
    by auto
  show ?thesis using f w e z grown_ge_size by simp
next
  case Flip
  then show ?thesis using assms ck_flip_keeps_frame_ok [of s s'] by simp
next
  case (Generate g)
  then obtain p where "generate g s = Inr (p, s')"
    using assms(3) by (cases "generate g s") auto
  from generate_frame [OF this] show ?thesis
    using assms(1,2) Generate frame_ok_cong [of s' s] by simp
next
  case (Console_Size d)
  then have "ck_current_console_size d s = (fst (ck_current_console_size d s), s')"
    using assms(3) by (cases "ck_current_console_size d s") auto
  from console_size_frame [OF this] show ?thesis
    using assms(1,2) Console_Size frame_ok_cong [of s' s] by simp
next
  case (Getch later)
  then obtain ch where "getch later s = Inr (ch, s')"
    using assms(3) by (cases "getch later s") auto
  from getch_frame [OF this] show ?thesis
    using assms(1,2) Getch frame_ok_cong [of s' s] by simp
next
  case (Kbhit e)
  then have "kbhit e s = (fst (kbhit e s), s')"
    using assms(3) by (cases "kbhit e s") auto
  from kbhit_frame [OF this] show ?thesis
    using assms(1,2) Kbhit frame_ok_cong [of s' s] by simp
next
  case (Input bytes)
  then show ?thesis using assms frame_ok_cong [of s' s] by auto
next
  case End_Of_Input
  then show ?thesis using assms frame_ok_cong [of s' s] by auto
qed

lemma run_frame:
  "frame_ok s \<Longrightarrow> within_bounds (unat (CK_SCREEN_BUFFER_END s)) cs \<Longrightarrow> run cs s = Inr s' \<Longrightarrow>
     frame_ok s' \<and> unat (CK_SCREEN_BUFFER_SIZE s) \<le> unat (CK_SCREEN_BUFFER_SIZE s')"
proof (induction cs arbitrary: s)
  case Nil
  then show ?case by simp
next
  case (Cons c cs)
  from Cons.prems(3) obtain s1 where e: "exec c s = Inr s1" and r: "run cs s1 = Inr s'"
    by (auto split: sum.splits)
  from exec_frame [OF Cons.prems(1,2) e] Cons.IH [of s1] r show ?case by auto
qed

lemma ck_init_returns:
  "\<exists>s0. ck_init True True (process_start t inp) = Inr s0 \<and> frame_ok s0 \<and> sequence_ready s0 \<and>
     terminal_ok t s0 \<and> CK_SCREEN_BUFFER_END s0 = 0 \<and> CK_SCREEN_BUFFER_SIZE s0 = 100 \<and>
     stdout_written s0 = [] \<and> events s0 = [] \<and> stdin_pending s0 = inp \<and>
     knownSize s0 = \<lparr>width = 0, height = 0, has_changed = False\<rparr>"
  by (simp add: ck_init_def process_start_def calloc_def memset0_def CK_ALLOC_SIZE_def
      CK_SEQUENCE_BUFFER_LEN_def frame_ok_def sequence_ready_def terminal_ok_def raw_mode_def
      c_str_def Let_def)

lemma exec_sequence_ready:
  assumes "sequence_ready s" and "exec c s = Inr s'"
  shows "sequence_ready s'"
proof (cases c)
  case (Print buffer reply)
  then show ?thesis using assms
    by (auto simp: ck_print_def Let_def sequence_ready_def
        split: option.splits block.splits)
next
  case Flip
  then show ?thesis using assms
    by (auto simp: ck_flip_def Let_def sequence_ready_def
        split: option.splits block.splits)
next
  case (Generate g)
  from generate_returns [OF assms(1), of g] obtain q where
    "generate g s = Inr (SEQUENCE_BUFFER_ptr,
       s\<lparr>CK_SEQUENCE_BUFFER := Allocated (sequence_text g @ [NUL] @ q)\<rparr>)"
    and "length (sequence_text g @ [NUL] @ q) = CK_SEQUENCE_BUFFER_LEN" by blast
  then show ?thesis using assms(2) Generate by (auto simp: sequence_ready_def)
next
  case (Console_Size d)
  then show ?thesis using assms
    by (auto simp: ck_current_console_size_def Let_def sequence_ready_def)
next
  case (Getch later)
  then obtain ch where "getch later s = Inr (ch, s')"
    using assms(2) by (cases "getch later s") auto
  from getch_frame [OF this] show ?thesis using assms(1) by (simp add: sequence_ready_def)
next
  case (Kbhit e)
  then show ?thesis using assms
    by (auto simp: kbhit_def tcsetattr_def Let_def sequence_ready_def)
next
  case (Input bytes)
  then show ?thesis using assms by (auto simp: sequence_ready_def)
next
  case End_Of_Input
  then show ?thesis using assms by (auto simp: sequence_ready_def)
qed

lemma run_sequence_ready:
  "sequence_ready s \<Longrightarrow> run cs s = Inr s' \<Longrightarrow> sequence_ready s'"
proof (induction cs arbitrary: s)
  case Nil
  then show ?case by simp
next
  case (Cons c cs)
  from Cons.prems(2) obtain s1 where e: "exec c s = Inr s1" and r: "run cs s1 = Inr s'"
    by (auto split: sum.splits)
  from Cons.IH [OF exec_sequence_ready [OF Cons.prems(1) e] r] show ?case .
qed





lemma session_run:
  "session t inp cs = Inr s \<Longrightarrow>
     \<exists>s0. ck_init True True (process_start t inp) = Inr s0 \<and> run cs s0 = Inr s"
  by (auto simp: session_def split: sum.splits)

lemma session_frame_ok:
  assumes "session t inp cs = Inr s" and "within_bounds 0 cs"
  shows "frame_ok s"
proof -
  from session_run [OF assms(1)] ck_init_returns [of t inp]
  obtain s0 where "run cs s0 = Inr s" "frame_ok s0" "CK_SCREEN_BUFFER_END s0 = 0" by auto
  then show ?thesis using run_frame [of s0 cs s] assms(2) by simp
qed

lemma session_sequence_ready:
  assumes "session t inp cs = Inr s"
  shows "sequence_ready s"
proof -
  from session_run [OF assms(1)] ck_init_returns [of t inp]
  obtain s0 where "run cs s0 = Inr s" "sequence_ready s0" by auto
  then show ?thesis using run_sequence_ready by blast
qed


lemma run_append:
  "run (cs @ ds) s = (case run cs s of Inl h \<Rightarrow> Inl h | Inr s' \<Rightarrow> run ds s')"
  by (induction cs arbitrary: s) (auto split: sum.splits)

lemma within_bounds_append:
  "within_bounds e (cs @ ds) \<Longrightarrow> within_bounds e cs"
  by (induction e cs rule: within_bounds.induct) auto

subsection \<open>Evaluation rules, size queries, terminal flags, definedness\<close>

lemmas frame_eval =
  session_def ck_init_def process_start_def calloc_def memset0_def CK_ALLOC_SIZE_def
  CK_SEQUENCE_BUFFER_LEN_def ck_print_def ck_print_loop.simps strlen_def c_str_def
  strcat_def ck_flip_def read_str_def returned_def Let_def

lemmas decimal_eval = decimal.simps digit_char_def

lemma run_within_bounds:
  "frame_ok s \<Longrightarrow> within_bounds (unat (CK_SCREEN_BUFFER_END s)) (cs @ ds) \<Longrightarrow>
     run cs s = Inr s' \<Longrightarrow> within_bounds (unat (CK_SCREEN_BUFFER_END s')) ds"
proof (induction cs arbitrary: s)
  case Nil
  then show ?case by simp
next
  case (Cons c cs)
  from Cons.prems(3) obtain s1 where e: "exec c s = Inr s1" and r: "run cs s1 = Inr s'"
    by (auto split: sum.splits)
  have "within_bounds (unat (CK_SCREEN_BUFFER_END s)) (c # (cs @ ds))"
    using Cons.prems(2) by simp
  from exec_frame [OF Cons.prems(1) this e] Cons.IH [of s1] r show ?case by blast
qed

lemma grown_least:
  assumes "j < (need - sz + 99) div (100::nat)"
  shows "sz + 100 * j < need"
proof -
  define q where "q = (need - sz + 99) div 100"
  have "Suc j \<le> q" using assms by (simp add: q_def)
  then have "100 * Suc j \<le> 100 * q" by (rule mult_le_mono2)
  moreover have "100 * q < (need - sz) + 100" unfolding q_def by (rule ceil_lt)
  ultimately have "100 * j < need - sz" by simp
  then show ?thesis by simp
qed

lemma ucast_16_64_eq: "(ucast (a :: 16 word) :: 64 word) = ucast (b :: 16 word) \<longleftrightarrow> a = b"
proof
  assume "(ucast a :: 64 word) = ucast b"
  then have "(ucast (ucast a :: 64 word) :: 16 word) = ucast (ucast b :: 64 word)" by simp
  then show "a = b" by (simp add: ucast_up_ucast_id is_up)
qed simp

lemma reported_eq_iff:
  "reported d2 = reported d1 \<longleftrightarrow> ws_col d2 = ws_col d1 \<and> ws_row d2 = ws_row d1"
  by (simp add: reported_def ucast_16_64_eq)

lemma sint_word_of_int_64:
  assumes "- (2 ^ 63) \<le> k" and "k < 2 ^ 63"
  shows "sint (word_of_int k :: 64 word) = k"
  using assms by (simp add: sint_sbintrunc' signed_take_bit_int_eq_self)

lemma sint16_bounds: "- 32768 \<le> sint (a :: 16 word)" "sint (a :: 16 word) < 32768"
  using sint_ge [of a] sint_lt [of a] by simp_all

lemma win32_dim_eq_iff:
  "(word_of_int (sint (a :: 16 word) - sint (b :: 16 word) + 1) :: 64 word) =
     word_of_int (sint (c :: 16 word) - sint (d :: 16 word) + 1) \<longleftrightarrow>
   sint a - sint b = sint c - sint d"
proof
  assume eq: "(word_of_int (sint a - sint b + 1) :: 64 word) = word_of_int (sint c - sint d + 1)"
  have "sint (word_of_int (sint a - sint b + 1) :: 64 word) = sint a - sint b + 1"
    using sint16_bounds [of a] sint16_bounds [of b] by (intro sint_word_of_int_64) simp_all
  moreover have "sint (word_of_int (sint c - sint d + 1) :: 64 word) = sint c - sint d + 1"
    using sint16_bounds [of c] sint16_bounds [of d] by (intro sint_word_of_int_64) simp_all
  ultimately show "sint a - sint b = sint c - sint d" using eq by simp
qed simp

lemma reported_win32_eq_iff:
  "reported_win32 r2 = reported_win32 r1 \<longleftrightarrow>
     sint (Right r2) - sint (Left r2) = sint (Right r1) - sint (Left r1) \<and>
     sint (Bottom r2) - sint (Top r2) = sint (Bottom r1) - sint (Top r1)"
  unfolding reported_win32_def by (simp only: prod.inject win32_dim_eq_iff)

lemma console_size_step:
  "ck_current_console_size d s = (r, s') \<Longrightarrow>
     knownSize s' = r \<and> (width r, height r) = reported d \<and> retained s' = reported d \<and>
     has_changed r = (reported d \<noteq> retained s)"
  by (auto simp: ck_current_console_size_def reported_def retained_def Let_def split: if_splits)

lemma console_size_win32_step:
  "ck_current_console_size_win32 d s = (r, s') \<Longrightarrow>
     knownSize s' = r \<and> (width r, height r) = reported_win32 d \<and>
     retained s' = reported_win32 d \<and>
     has_changed r = (reported_win32 d \<noteq> retained s)"
  by (auto simp: ck_current_console_size_win32_def reported_win32_def retained_def Let_def
      split: if_splits)

lemma exec_knownSize:
  "\<not> queries_size c \<Longrightarrow> exec c s = Inr s' \<Longrightarrow> knownSize s' = knownSize s"
proof (cases c)
  case (Print buffer reply)
  then show "exec c s = Inr s' \<Longrightarrow> knownSize s' = knownSize s"
    by (auto simp: ck_print_def Let_def split: option.splits block.splits)
next
  case Flip
  then show "exec c s = Inr s' \<Longrightarrow> knownSize s' = knownSize s"
    by (auto simp: ck_flip_def Let_def split: option.splits block.splits)
next
  case (Generate g)
  then show "exec c s = Inr s' \<Longrightarrow> knownSize s' = knownSize s"
    by (cases g)
       (auto simp: ck_rgb_def ck_cursor_goto_def ck_cursor_move_def split: option.splits)
next
  case (Console_Size d)
  then show "\<not> queries_size c \<Longrightarrow> knownSize s' = knownSize s" by simp
next
  case (Getch later)
  then show "exec c s = Inr s' \<Longrightarrow> knownSize s' = knownSize s"
    by (auto simp: getch_def getchar_def tcsetattr_def Let_def
        split: list.splits if_splits arrival.splits)
next
  case (Kbhit e)
  then show "exec c s = Inr s' \<Longrightarrow> knownSize s' = knownSize s"
    by (auto simp: kbhit_def tcsetattr_def Let_def)
next
  case (Input bytes)
  then show "exec c s = Inr s' \<Longrightarrow> knownSize s' = knownSize s" by auto
next
  case End_Of_Input
  then show "exec c s = Inr s' \<Longrightarrow> knownSize s' = knownSize s" by auto
qed

lemma run_knownSize:
  "\<not> list_ex queries_size cs \<Longrightarrow> run cs s = Inr s' \<Longrightarrow> knownSize s' = knownSize s"
proof (induction cs arbitrary: s)
  case Nil
  then show ?case by simp
next
  case (Cons c cs)
  from Cons.prems(2) obtain s1 where e: "exec c s = Inr s1" and r: "run cs s1 = Inr s'"
    by (auto split: sum.splits)
  have "knownSize s1 = knownSize s" using exec_knownSize [OF _ e] Cons.prems(1) by simp
  moreover have "knownSize s' = knownSize s1" using Cons.IH [OF _ r] Cons.prems(1) by simp
  ultimately show ?case by simp
qed

lemma session_knownSize:
  assumes "session t inp cs = Inr s" and "\<not> list_ex queries_size cs"
  shows "knownSize s = knownSize (process_start t inp)"
proof -
  from session_run [OF assms(1)] ck_init_returns [of t inp]
  obtain s0 where "run cs s0 = Inr s"
    "knownSize s0 = \<lparr>width = 0, height = 0, has_changed = False\<rparr>" by auto
  then show ?thesis using run_knownSize [OF assms(2)] by (simp add: process_start_def)
qed

lemma sequence_text_no_NUL:
  "NUL \<notin> set (sequence_text (Rgb wh r g b))"
  "NUL \<notin> set (sequence_text (Cursor_Goto x y))"
  "wh' \<noteq> NUL \<Longrightarrow> NUL \<notin> set (sequence_text (Cursor_Move wh' amount))"
  by (simp_all add: NUL_notin_decimal)

lemma shown_rgb:
  "sequence_ready s \<Longrightarrow> shown (ck_rgb wh r g b s) = Some (sequence_text (Rgb wh r g b))"
  using generate_shown [of s "Rgb wh r g b"] sequence_text_no_NUL(1) [of wh r g b]
  by (simp add: c_str_no_NUL del: sequence_text.simps)

lemma shown_goto:
  "sequence_ready s \<Longrightarrow> shown (ck_cursor_goto x y s) = Some (sequence_text (Cursor_Goto x y))"
  using generate_shown [of s "Cursor_Goto x y"] sequence_text_no_NUL(2) [of x y]
  by (simp add: c_str_no_NUL del: sequence_text.simps)

lemma shown_move:
  "sequence_ready s \<Longrightarrow> wh \<noteq> NUL \<Longrightarrow>
     shown (ck_cursor_move wh amount s) = Some (sequence_text (Cursor_Move wh amount))"
  using generate_shown [of s "Cursor_Move wh amount"] sequence_text_no_NUL(3) [of wh amount]
  by (simp add: c_str_no_NUL del: sequence_text.simps)



lemma exec_defined:
  assumes "frame_ok s" and "sequence_ready s"
    and "within_bounds (unat (CK_SCREEN_BUFFER_END s)) (c # cs)"
  shows "exec c s \<noteq> Inl Undefined_Behaviour \<and> exec c s \<noteq> Inl Loops_Forever"
proof (cases c)
  case (Print buffer reply)
  have b: "unat (CK_SCREEN_BUFFER_END s) + length (c_str buffer) + 2 + 100 \<le> 2 ^ 64"
    using assms(3) Print by simp
  show ?thesis
  proof (cases reply)
    case Realloc_Fails
    then show ?thesis using ck_print_fails [OF assms(1,2) b] Print by auto
  next
    case (Realloc_Gives junk)
    then show ?thesis using ck_print_returns [OF assms(1) b, of junk] Print by auto
  qed
next
  case Flip
  then show ?thesis using ck_flip_returns [OF assms(1)] by auto
next
  case (Generate g)
  then show ?thesis using generate_returns [OF assms(2), of g] by auto
next
  case (Console_Size d)
  then show ?thesis by simp
next
  case (Getch later)
  then show ?thesis
    by (auto simp: getch_def getchar_def Let_def split: list.splits if_splits arrival.splits)
next
  case (Kbhit e)
  then show ?thesis by simp
next
  case (Input bytes)
  then show ?thesis by simp
next
  case End_Of_Input
  then show ?thesis by simp
qed

lemma run_defined:
  "frame_ok s \<Longrightarrow> sequence_ready s \<Longrightarrow> within_bounds (unat (CK_SCREEN_BUFFER_END s)) cs \<Longrightarrow>
     run cs s \<noteq> Inl Undefined_Behaviour \<and> run cs s \<noteq> Inl Loops_Forever"
proof (induction cs arbitrary: s)
  case Nil
  then show ?case by simp
next
  case (Cons c cs)
  note d = exec_defined [OF Cons.prems]
  show ?case
  proof (cases "exec c s")
    case (Inl h)
    then show ?thesis using d by simp
  next
    case (Inr s1)
    from exec_frame [OF Cons.prems(1,3) Inr] exec_sequence_ready [OF Cons.prems(2) Inr]
    have "frame_ok s1" "sequence_ready s1" "within_bounds (unat (CK_SCREEN_BUFFER_END s1)) cs"
      by simp_all
    from Cons.IH [OF this] show ?thesis using Inr by simp
  qed
qed

lemma session_defined:
  assumes "within_bounds 0 cs"
  shows "session t inp cs \<noteq> Inl Undefined_Behaviour \<and> session t inp cs \<noteq> Inl Loops_Forever"
proof -
  from ck_init_returns [of t inp] obtain s0 where
    i: "ck_init True True (process_start t inp) = Inr s0" and "frame_ok s0" "sequence_ready s0"
    "CK_SCREEN_BUFFER_END s0 = 0" by blast
  then show ?thesis using run_defined [of s0 cs] assms by (simp add: session_def)
qed

lemma run_appends:
  assumes "frame_ok s" and "CK_SCREEN_BUFFER s = Allocated m"
    and "unat (CK_SCREEN_BUFFER_END s) + sum_list (map length (texts bjs)) +
           2 * length bjs + 100 \<le> 2 ^ 64"
  shows "\<exists>s' m'. run (appends bjs) s = Inr s' \<and> frame_ok s' \<and>
           unat (CK_SCREEN_BUFFER_END s') =
             unat (CK_SCREEN_BUFFER_END s) + sum_list (map length (texts bjs)) +
             2 * length bjs \<and>
           CK_SCREEN_BUFFER s' = Allocated m' \<and>
           c_str m' = c_str m @ concat (texts bjs)"
  using assms
proof (induction bjs arbitrary: s m)
  case Nil
  then show ?case by (simp add: appends_def texts_def)
next
  case (Cons bj bjs)
  obtain buffer junk where bj: "bj = (buffer, junk)" by (cases bj)
  have b: "unat (CK_SCREEN_BUFFER_END s) + length (c_str buffer) + 2 + 100 \<le> 2 ^ 64"
    using Cons.prems(3) bj by (simp add: texts_def)
  from ck_print_returns [OF Cons.prems(1) b, of junk] Cons.prems(2)
  obtain m1 s1 where p: "ck_print buffer (Realloc_Gives junk) s = Inr s1"
    and m1: "CK_SCREEN_BUFFER s1 = Allocated m1"
    and e1: "unat (CK_SCREEN_BUFFER_END s1) =
               unat (CK_SCREEN_BUFFER_END s) + length (c_str buffer) + 2"
    and c1: "c_str m1 = c_str m @ c_str buffer"
    by (metis block.inject ck_state.select_convs(3) ck_state.surjective ck_state.update_convs(3))
  have f1: "frame_ok s1" by (rule ck_print_keeps_frame_ok [OF Cons.prems(1) b p])
  have b1: "unat (CK_SCREEN_BUFFER_END s1) + sum_list (map length (texts bjs)) +
           2 * length bjs + 100 \<le> 2 ^ 64"
    using Cons.prems(3) e1 bj by (simp add: texts_def)
  from Cons.IH [OF f1 m1 b1] obtain s' m' where
    "run (appends bjs) s1 = Inr s'" "frame_ok s'"
    "unat (CK_SCREEN_BUFFER_END s') =
       unat (CK_SCREEN_BUFFER_END s1) + sum_list (map length (texts bjs)) + 2 * length bjs"
    "CK_SCREEN_BUFFER s' = Allocated m'" "c_str m' = c_str m1 @ concat (texts bjs)"
    by blast
  then show ?case using p e1 c1 bj by (simp add: appends_def texts_def)
qed

lemma frame_ok_read_str:
  "frame_ok s \<Longrightarrow> CK_SCREEN_BUFFER s = Allocated m \<Longrightarrow>
     read_str (CK_SCREEN_BUFFER s) = Some (c_str m)"
  by (simp add: frame_ok_def read_str_def NUL_in_iff)

subsection \<open>The input calls\<close>






section \<open>Properties\<close>

subsection \<open>C1: the end index after appends\<close>

text \<open>
  C1 as stated fails: after \<^verbatim>\<open>ck_init\<close> and one append of the five bytes
  of \<^verbatim>\<open>"hello"\<close>, \<^verbatim>\<open>CK_SCREEN_BUFFER_END\<close> is 7.
\<close>

theorem end_index_counterexample:
  "map_option CK_SCREEN_BUFFER_END
     (returned (session zero_termios []
        [Print ''hello'' (Realloc_Gives stale_bytes)])) = Some 7 \<and>
   length (c_str ''hello'') = 5"
  by (simp add: frame_eval)

text \<open>
  C1 (as the code has it). After \<^verbatim>\<open>ck_init\<close>, a sequence of appends that
  the allocator serves and that stays below \<open>2 ^ 64\<close> returns;
  \<^verbatim>\<open>CK_SCREEN_BUFFER_END\<close> is then the sum of the lengths of the appended
  strings plus two for every append, and the text of the frame buffer is the
  concatenation of the appended strings, whose length is the sum of their lengths.
\<close>

theorem appended_lengths:
  assumes "sum_list (map length (texts bjs)) + 2 * length bjs + 100 \<le> 2 ^ 64"
  shows "\<exists>s. session t inp (appends bjs) = Inr s \<and>
           unat (CK_SCREEN_BUFFER_END s) = sum_list (map length (texts bjs)) + 2 * length bjs \<and>
           read_str (CK_SCREEN_BUFFER s) = Some (concat (texts bjs)) \<and>
           length (concat (texts bjs)) = sum_list (map length (texts bjs))"
proof -
  from ck_init_returns [of t inp] obtain s0 where
    i: "ck_init True True (process_start t inp) = Inr s0" and f: "frame_ok s0"
    and e: "CK_SCREEN_BUFFER_END s0 = 0" by blast
  from f obtain m where m: "CK_SCREEN_BUFFER s0 = Allocated m"
    by (auto simp: frame_ok_def split: block.splits)
  have c: "c_str m = []" using f m e by (simp add: frame_ok_def)
  have b: "unat (CK_SCREEN_BUFFER_END s0) + sum_list (map length (texts bjs)) +
           2 * length bjs + 100 \<le> 2 ^ 64" using assms e by simp
  from run_appends [OF f m b] obtain s' m' where
    r: "run (appends bjs) s0 = Inr s'" and f': "frame_ok s'"
    and e': "unat (CK_SCREEN_BUFFER_END s') =
             unat (CK_SCREEN_BUFFER_END s0) + sum_list (map length (texts bjs)) +
             2 * length bjs"
    and m': "CK_SCREEN_BUFFER s' = Allocated m'"
    and c': "c_str m' = c_str m @ concat (texts bjs)" by blast
  have "session t inp (appends bjs) = Inr s'" using i r by (simp add: session_def)
  moreover have "read_str (CK_SCREEN_BUFFER s') = Some (concat (texts bjs))"
    using frame_ok_read_str [OF f' m'] c c' by simp
  ultimately show ?thesis using e e' by (auto simp: length_concat)
qed

theorem appended_lengths_witness:
  "\<exists>s. session zero_termios ''''
         (appends [(''hello'', stale_bytes), ('' world'', stale_bytes)]) = Inr s \<and>
       unat (CK_SCREEN_BUFFER_END s) = 15 \<and>
       read_str (CK_SCREEN_BUFFER s) = Some ''hello world''"
  using appended_lengths [of "[(''hello'', stale_bytes), ('' world'', stale_bytes)]"
      zero_termios "''''"]
  by (simp add: texts_def c_str_def)

subsection \<open>C2: end index, text length and size\<close>

text \<open>
  C2 as stated fails for the end index: after \<^verbatim>\<open>ck_init\<close> and one append
  of 98 bytes, \<^verbatim>\<open>CK_SCREEN_BUFFER_END\<close> and
  \<^verbatim>\<open>CK_SCREEN_BUFFER_SIZE\<close> are both 100.
\<close>

theorem end_index_reaches_size_counterexample:
  "map_option CK_SCREEN_BUFFER_END
     (returned (session zero_termios []
        [Print (replicate 98 (CHR ''a'')) (Realloc_Gives stale_bytes)])) = Some 100 \<and>
   map_option CK_SCREEN_BUFFER_SIZE
     (returned (session zero_termios []
        [Print (replicate 98 (CHR ''a'')) (Realloc_Gives stale_bytes)])) = Some 100"
  by (simp add: frame_eval)

text \<open>
  C2 (as the code has it). At every point of a session whose arithmetic stays below
  \<open>2 ^ 64\<close>, the frame buffer is a live block of
  \<^verbatim>\<open>CK_SCREEN_BUFFER_SIZE\<close> bytes, the length of its text is strictly less
  than that size and at most \<^verbatim>\<open>CK_SCREEN_BUFFER_END\<close>, and
  \<^verbatim>\<open>CK_SCREEN_BUFFER_END\<close> is at most the size.
\<close>

theorem frame_buffer_invariant:
  assumes "session t inp cs = Inr s" and "within_bounds 0 cs"
  shows "\<exists>m. CK_SCREEN_BUFFER s = Allocated m \<and>
           length m = unat (CK_SCREEN_BUFFER_SIZE s) \<and>
           length (c_str m) < unat (CK_SCREEN_BUFFER_SIZE s) \<and>
           length (c_str m) \<le> unat (CK_SCREEN_BUFFER_END s) \<and>
           unat (CK_SCREEN_BUFFER_END s) \<le> unat (CK_SCREEN_BUFFER_SIZE s)"
  using session_frame_ok [OF assms] by (auto simp: frame_ok_def split: block.splits)

theorem frame_buffer_invariant_witness:
  "\<exists>s m. session zero_termios ''q''
           [Print ''hello'' (Realloc_Gives stale_bytes), Getch Never, Flip,
            Print (replicate 98 (CHR ''a'')) (Realloc_Gives stale_bytes)] = Inr s \<and>
         CK_SCREEN_BUFFER s = Allocated m \<and>
         length (c_str m) < unat (CK_SCREEN_BUFFER_SIZE s) \<and>
         unat (CK_SCREEN_BUFFER_END s) \<le> unat (CK_SCREEN_BUFFER_SIZE s)"
proof -
  let ?cs = "[Print ''hello'' (Realloc_Gives stale_bytes), Getch Never, Flip,
              Print (replicate 98 (CHR ''a'')) (Realloc_Gives stale_bytes)]"
  have "\<exists>s. session zero_termios ''q'' ?cs = Inr s"
    by (simp add: frame_eval getch_def getchar_def tcsetattr_def)
  then obtain s where s: "session zero_termios ''q'' ?cs = Inr s" ..
  have b: "within_bounds 0 ?cs" by (simp add: c_str_def)
  from frame_buffer_invariant [OF s b] s show ?thesis by blast
qed

subsection \<open>C3: hello world\<close>

text \<open>
  C3. After \<^verbatim>\<open>ck_init\<close>, the appends of \<^verbatim>\<open>"hello"\<close> and
  \<^verbatim>\<open>" world"\<close> followed by \<^verbatim>\<open>ck_flip\<close> return, whatever the
  terminal and whatever bytes the allocator hands out; standard output has received
  exactly the home-cursor sequence followed by \<^verbatim>\<open>hello world\<close>, the end index
  is 0 and the text of the frame buffer is empty.
\<close>

theorem hello_world_flip:
  "\<exists>s. session t inp
         [Print ''hello'' (Realloc_Gives j1), Print '' world'' (Realloc_Gives j2), Flip] = Inr s \<and>
       stdout_written s = ESC # ''[Hhello world'' \<and>
       CK_SCREEN_BUFFER_END s = 0 \<and>
       read_str (CK_SCREEN_BUFFER s) = Some []"
  by (simp add: frame_eval)

theorem hello_world_flip_witness:
  "map_option stdout_written
     (returned (session zero_termios ''q''
        [Print ''hello'' (Realloc_Gives stale_bytes),
         Print '' world'' (Realloc_Gives stale_bytes), Flip])) =
   Some (ESC # ''[Hhello world'')"
  using hello_world_flip [of zero_termios "''q''" stale_bytes stale_bytes]
  by (auto simp: returned_def)

subsection \<open>C4: change detection of the size query\<close>

text \<open>
  C4. Of two calls of \<^verbatim>\<open>ck_current_console_size\<close> in a row, on either
  branch, the second returns \<^verbatim>\<open>has_changed\<close> exactly when the dimensions the
  system reports differ from the retained ones, which are those of the first call; it
  returns the reported width and height in both cases (so the retained ones when nothing
  changed), and the retained value is the one returned.
\<close>

theorem console_size_change_detection:
  assumes "ck_current_console_size d1 s = (r1, s1)"
    and "ck_current_console_size d2 s1 = (r2, s2)"
    and "ck_current_console_size_win32 w1 s = (q1, u1)"
    and "ck_current_console_size_win32 w2 u1 = (q2, u2)"
  shows "has_changed r2 = (reported d2 \<noteq> retained s1) \<and>
         (width r2, height r2) = reported d2 \<and>
         retained s2 = reported d2 \<and> knownSize s2 = r2 \<and>
         retained s1 = reported d1 \<and>
         has_changed r2 = (ws_col d2 \<noteq> ws_col d1 \<or> ws_row d2 \<noteq> ws_row d1) \<and>
         has_changed q2 = (reported_win32 w2 \<noteq> retained u1) \<and>
         (width q2, height q2) = reported_win32 w2 \<and>
         retained u2 = reported_win32 w2 \<and> knownSize u2 = q2 \<and>
         retained u1 = reported_win32 w1 \<and>
         has_changed q2 =
           (sint (Right w2) - sint (Left w2) \<noteq> sint (Right w1) - sint (Left w1) \<or>
            sint (Bottom w2) - sint (Top w2) \<noteq> sint (Bottom w1) - sint (Top w1))"
proof -
  note a = console_size_step [OF assms(1)] console_size_step [OF assms(2)]
  note b = console_size_win32_step [OF assms(3)] console_size_win32_step [OF assms(4)]
  have "has_changed r2 = (ws_col d2 \<noteq> ws_col d1 \<or> ws_row d2 \<noteq> ws_row d1)"
    using a reported_eq_iff [of d2 d1] by auto
  moreover have "has_changed q2 =
           (sint (Right w2) - sint (Left w2) \<noteq> sint (Right w1) - sint (Left w1) \<or>
            sint (Bottom w2) - sint (Top w2) \<noteq> sint (Bottom w1) - sint (Top w1))"
    using b reported_win32_eq_iff [of w2 w1] by auto
  ultimately show ?thesis using a b by simp
qed

theorem console_size_change_detection_witness:
  "has_changed (fst (ck_current_console_size
       \<lparr>ws_row = 24, ws_col = 80, ws_xpixel = 0, ws_ypixel = 0\<rparr>
       (snd (ck_current_console_size
          \<lparr>ws_row = 24, ws_col = 80, ws_xpixel = 0, ws_ypixel = 0\<rparr>
          (process_start zero_termios ''''))))) = False \<and>
   has_changed (fst (ck_current_console_size_win32
       \<lparr>Left = 0, Top = 0, Right = 99, Bottom = 24\<rparr>
       (snd (ck_current_console_size_win32
          \<lparr>Left = 0, Top = 0, Right = 79, Bottom = 24\<rparr>
          (process_start zero_termios ''''))))) = True"
  using console_size_change_detection
    [where ?d1.0 = "\<lparr>ws_row = 24, ws_col = 80, ws_xpixel = 0, ws_ypixel = 0\<rparr>"
       and s = "process_start zero_termios ''''"
       and ?d2.0 = "\<lparr>ws_row = 24, ws_col = 80, ws_xpixel = 0, ws_ypixel = 0\<rparr>"
       and ?w1.0 = "\<lparr>Left = 0, Top = 0, Right = 79, Bottom = 24\<rparr>"
       and ?w2.0 = "\<lparr>Left = 0, Top = 0, Right = 99, Bottom = 24\<rparr>",
     OF surjective_pairing surjective_pairing surjective_pairing surjective_pairing]
  by (simp add: reported_win32_def)

subsection \<open>C5: literal and generated forms\<close>

text \<open>
  C5 as stated fails: the literal forms paste the spelling of their arguments. For the
  parameter 256, which the \<^verbatim>\<open>unsigned char\<close> parameter of
  \<^verbatim>\<open>ck_rgb\<close> turns into 0, and for the parameter 10 written
  \<^verbatim>\<open>0x0A\<close>, the two forms give different bytes.
\<close>

theorem literal_spelling_counterexample:
  "map_option (shown \<circ> ck_fg_rgb 256 0 0) (returned (session zero_termios [] [])) =
     Some (Some (ESC # ''[38;2;0;0;0m'')) \<and>
   ck_fg_rgb_l ''256'' ''0'' ''0'' = ESC # ''[38;2;256;0;0m'' \<and>
   map_option (shown \<circ> ck_cursor_up 0x0A) (returned (session zero_termios [] [])) =
     Some (Some (ESC # ''[10A'')) \<and>
   ck_cursor_up_l ''0x0A'' = ESC # ''[0x0AA''"
  by (simp add: frame_eval ck_fg_rgb_def ck_rgb_def ck_cursor_up_def ck_cursor_move_def
      sprintf_def shown_def deref_def decimal_eval ck_fg_rgb_l_def ck_cursor_up_l_def)

text \<open>
  C5 (as the code has it). At any point of a session, the generated forms show, through
  the pointer they return, the very bytes of the literal forms: for the three examples
  of the interface, and for every value of the parameter types when each argument of
  the literal form is written as the decimal numeral of that value.
\<close>

theorem literal_and_generated_agree:
  assumes "session t inp cs = Inr s"
  shows "shown (ck_cursor_goto 10 5 s) = Some (ESC # ''[5;10H'') \<and>
         ck_cursor_goto_l ''10'' ''5'' = ESC # ''[5;10H'' \<and>
         shown (ck_fg_rgb 255 0 0 s) = Some (ESC # ''[38;2;255;0;0m'') \<and>
         ck_fg_rgb_l ''255'' ''0'' ''0'' = ESC # ''[38;2;255;0;0m'' \<and>
         shown (ck_cursor_up 3 s) = Some (ESC # ''[3A'') \<and>
         ck_cursor_up_l ''3'' = ESC # ''[3A'' \<and>
         shown (ck_cursor_goto x y s) =
           Some (ck_cursor_goto_l (decimal (unat x)) (decimal (unat y))) \<and>
         shown (ck_fg_rgb r g b s) =
           Some (ck_fg_rgb_l (decimal (unat r)) (decimal (unat g)) (decimal (unat b))) \<and>
         shown (ck_bg_rgb r g b s) =
           Some (ck_bg_rgb_l (decimal (unat r)) (decimal (unat g)) (decimal (unat b))) \<and>
         shown (ck_cursor_up n s) = Some (ck_cursor_up_l (decimal (unat n))) \<and>
         shown (ck_cursor_down n s) = Some (ck_cursor_down_l (decimal (unat n))) \<and>
         shown (ck_cursor_right n s) = Some (ck_cursor_right_l (decimal (unat n))) \<and>
         shown (ck_cursor_left n s) = Some (ck_cursor_left_l (decimal (unat n)))"
proof -
  have r: "sequence_ready s" by (rule session_sequence_ready [OF assms])
  have "shown (ck_cursor_goto 10 5 s) = Some (ESC # ''[5;10H'')"
    by (simp add: shown_goto [OF r] decimal_eval)
  moreover have "shown (ck_fg_rgb 255 0 0 s) = Some (ESC # ''[38;2;255;0;0m'')"
    by (simp add: ck_fg_rgb_def shown_rgb [OF r] decimal_eval)
  moreover have "shown (ck_cursor_up 3 s) = Some (ESC # ''[3A'')"
    by (simp add: ck_cursor_up_def shown_move [OF r] decimal_eval)
  moreover have "ck_cursor_goto_l ''10'' ''5'' = ESC # ''[5;10H''"
    "ck_fg_rgb_l ''255'' ''0'' ''0'' = ESC # ''[38;2;255;0;0m''"
    "ck_cursor_up_l ''3'' = ESC # ''[3A''"
    by (simp_all add: ck_cursor_goto_l_def ck_fg_rgb_l_def ck_cursor_up_l_def)
  moreover have "shown (ck_cursor_goto x y s) =
           Some (ck_cursor_goto_l (decimal (unat x)) (decimal (unat y)))"
    by (simp add: shown_goto [OF r] ck_cursor_goto_l_def)
  moreover have "shown (ck_fg_rgb r g b s) =
           Some (ck_fg_rgb_l (decimal (unat r)) (decimal (unat g)) (decimal (unat b)))"
    by (simp add: ck_fg_rgb_def shown_rgb [OF r] ck_fg_rgb_l_def decimal_eval)
  moreover have "shown (ck_bg_rgb r g b s) =
           Some (ck_bg_rgb_l (decimal (unat r)) (decimal (unat g)) (decimal (unat b)))"
    by (simp add: ck_bg_rgb_def shown_rgb [OF r] ck_bg_rgb_l_def decimal_eval)
  moreover have "shown (ck_cursor_up n s) = Some (ck_cursor_up_l (decimal (unat n)))"
    "shown (ck_cursor_down n s) = Some (ck_cursor_down_l (decimal (unat n)))"
    "shown (ck_cursor_right n s) = Some (ck_cursor_right_l (decimal (unat n)))"
    "shown (ck_cursor_left n s) = Some (ck_cursor_left_l (decimal (unat n)))"
    by (simp_all add: ck_cursor_up_def ck_cursor_down_def ck_cursor_right_def
        ck_cursor_left_def shown_move [OF r] ck_cursor_up_l_def ck_cursor_down_l_def
        ck_cursor_right_l_def ck_cursor_left_l_def)
  ultimately show ?thesis by simp
qed

theorem literal_and_generated_agree_witness:
  "\<exists>s. session zero_termios '''' [Generate (Cursor_Move (CHR ''C'') 7)] = Inr s \<and>
       shown (ck_cursor_goto 10 5 s) = Some (ck_cursor_goto_l ''10'' ''5'') \<and>
       shown (ck_fg_rgb 255 0 0 s) = Some (ck_fg_rgb_l ''255'' ''0'' ''0'') \<and>
       shown (ck_cursor_up 3 s) = Some (ck_cursor_up_l ''3'') \<and>
       shown (ck_cursor_left 18446744073709551615 s) =
         Some (ck_cursor_left_l ''18446744073709551615'')"
proof -
  let ?cs = "[Generate (Cursor_Move (CHR ''C'') 7)]"
  have "\<exists>s. session zero_termios '''' ?cs = Inr s"
    by (simp add: frame_eval ck_cursor_move_def sprintf_def decimal_eval)
  then obtain s where s: "session zero_termios '''' ?cs = Inr s" ..
  from literal_and_generated_agree [OF s, where n = "18446744073709551615"]
  show ?thesis using s by (auto simp: decimal_eval)
qed

subsection \<open>C6: growth of the capacity\<close>

text \<open>
  C6. From any point \<open>s\<close> of a session whose arithmetic stays below \<open>2 ^ 64\<close>,
  no continuation \<open>ds\<close> ends with a smaller \<^verbatim>\<open>CK_SCREEN_BUFFER_SIZE\<close>; and
  when the continuation starts with an append the allocator serves, the append returns
  with the size raised by \<open>k\<close> steps of \<^verbatim>\<open>CK_ALLOC_SIZE\<close>, where the size
  is sufficient after \<open>k\<close> steps and after no fewer, and the text of the new block is
  the old text followed by the appended string.
\<close>

theorem capacity_growth:
  assumes "session t inp cs = Inr s" and "within_bounds 0 (cs @ ds)"
  shows "(\<forall>s'. run ds s = Inr s' \<longrightarrow>
            unat (CK_SCREEN_BUFFER_SIZE s) \<le> unat (CK_SCREEN_BUFFER_SIZE s')) \<and>
         (\<forall>buffer junk rest. ds = Print buffer (Realloc_Gives junk) # rest \<longrightarrow>
            (\<exists>s1 k m m1.
               ck_print buffer (Realloc_Gives junk) s = Inr s1 \<and>
               unat (CK_SCREEN_BUFFER_SIZE s1) =
                 unat (CK_SCREEN_BUFFER_SIZE s) + unat CK_ALLOC_SIZE * k \<and>
               unat (CK_SCREEN_BUFFER_END s) + length (c_str buffer) + 2
                 \<le> unat (CK_SCREEN_BUFFER_SIZE s1) \<and>
               (\<forall>j<k. unat (CK_SCREEN_BUFFER_SIZE s) + unat CK_ALLOC_SIZE * j <
                   unat (CK_SCREEN_BUFFER_END s) + length (c_str buffer) + 2) \<and>
               CK_SCREEN_BUFFER s = Allocated m \<and> CK_SCREEN_BUFFER s1 = Allocated m1 \<and>
               c_str m1 = c_str m @ c_str buffer))"
proof -
  from session_run [OF assms(1)] ck_init_returns [of t inp]
  obtain s0 where r0: "run cs s0 = Inr s" and f0: "frame_ok s0"
    and e0: "CK_SCREEN_BUFFER_END s0 = 0" by auto
  have w: "within_bounds (unat (CK_SCREEN_BUFFER_END s)) ds"
    using run_within_bounds [OF f0 _ r0] e0 assms(2) by simp
  have f: "frame_ok s" using session_frame_ok [OF assms(1)] within_bounds_append [OF assms(2)] .
  have mono: "\<forall>s'. run ds s = Inr s' \<longrightarrow>
            unat (CK_SCREEN_BUFFER_SIZE s) \<le> unat (CK_SCREEN_BUFFER_SIZE s')"
    using run_frame [OF f w] by blast
  have step: "\<exists>s1 k m m1.
               ck_print buffer (Realloc_Gives junk) s = Inr s1 \<and>
               unat (CK_SCREEN_BUFFER_SIZE s1) =
                 unat (CK_SCREEN_BUFFER_SIZE s) + unat CK_ALLOC_SIZE * k \<and>
               unat (CK_SCREEN_BUFFER_END s) + length (c_str buffer) + 2
                 \<le> unat (CK_SCREEN_BUFFER_SIZE s1) \<and>
               (\<forall>j<k. unat (CK_SCREEN_BUFFER_SIZE s) + unat CK_ALLOC_SIZE * j <
                   unat (CK_SCREEN_BUFFER_END s) + length (c_str buffer) + 2) \<and>
               CK_SCREEN_BUFFER s = Allocated m \<and> CK_SCREEN_BUFFER s1 = Allocated m1 \<and>
               c_str m1 = c_str m @ c_str buffer"
    if ds: "ds = Print buffer (Realloc_Gives junk) # rest" for buffer junk rest
  proof -
    define need where "need = unat (CK_SCREEN_BUFFER_END s) + length (c_str buffer) + 2"
    have b: "unat (CK_SCREEN_BUFFER_END s) + length (c_str buffer) + 2 + 100 \<le> 2 ^ 64"
      using w ds by simp
    from ck_print_returns [OF f b, of junk]
    obtain m m1 s1 where p: "ck_print buffer (Realloc_Gives junk) s = Inr s1"
      and m: "CK_SCREEN_BUFFER s = Allocated m"
      and s1: "s1 = s\<lparr>CK_SCREEN_BUFFER_SIZE := CK_SCREEN_BUFFER_SIZE s1,
                  CK_SCREEN_BUFFER_END := CK_SCREEN_BUFFER_END s1,
                  CK_SCREEN_BUFFER := Allocated m1\<rparr>"
      and z: "unat (CK_SCREEN_BUFFER_SIZE s1) = grown need (unat (CK_SCREEN_BUFFER_SIZE s))"
      and c: "c_str m1 = c_str m @ c_str buffer"
      unfolding need_def by blast
    have m1: "CK_SCREEN_BUFFER s1 = Allocated m1" by (subst s1) simp
    define k where "k = (need - unat (CK_SCREEN_BUFFER_SIZE s) + 99) div 100"
    have "unat (CK_SCREEN_BUFFER_SIZE s1) = unat (CK_SCREEN_BUFFER_SIZE s) + unat CK_ALLOC_SIZE * k"
      using z by (simp add: grown_def k_def CK_ALLOC_SIZE_def)
    moreover have "need \<le> unat (CK_SCREEN_BUFFER_SIZE s1)"
      using z grown_ge_need by simp
    moreover have "\<forall>j<k. unat (CK_SCREEN_BUFFER_SIZE s) + unat CK_ALLOC_SIZE * j < need"
      using grown_least [of _ need "unat (CK_SCREEN_BUFFER_SIZE s)"]
      by (simp add: k_def CK_ALLOC_SIZE_def)
    ultimately show ?thesis using p m m1 c unfolding need_def by blast
  qed
  show ?thesis using mono step by blast
qed

theorem capacity_growth_witness:
  "\<exists>s s1 k. session zero_termios '''' [Print ''hello'' (Realloc_Gives stale_bytes)] = Inr s \<and>
     ck_print (replicate 150 (CHR ''a'')) (Realloc_Gives stale_bytes) s = Inr s1 \<and>
     unat (CK_SCREEN_BUFFER_SIZE s1) =
       unat (CK_SCREEN_BUFFER_SIZE s) + unat CK_ALLOC_SIZE * k \<and>
     unat (CK_SCREEN_BUFFER_END s) + length (c_str (replicate 150 (CHR ''a''))) + 2
       \<le> unat (CK_SCREEN_BUFFER_SIZE s1) \<and>
     unat (CK_SCREEN_BUFFER_SIZE s) \<le> unat (CK_SCREEN_BUFFER_SIZE s1)"
proof -
  let ?cs = "[Print ''hello'' (Realloc_Gives stale_bytes)]"
  let ?ds = "[Print (replicate 150 (CHR ''a'')) (Realloc_Gives stale_bytes)]"
  have "\<exists>s. session zero_termios '''' ?cs = Inr s"
    by (simp add: frame_eval)
  then obtain s where s: "session zero_termios '''' ?cs = Inr s" ..
  have b: "within_bounds 0 (?cs @ ?ds)" by (simp add: c_str_def)
  from capacity_growth [OF s b]
  obtain s1 k where p: "ck_print (replicate 150 (CHR ''a'')) (Realloc_Gives stale_bytes) s = Inr s1"
     and "unat (CK_SCREEN_BUFFER_SIZE s1) =
       unat (CK_SCREEN_BUFFER_SIZE s) + unat CK_ALLOC_SIZE * k"
     and "unat (CK_SCREEN_BUFFER_END s) + length (c_str (replicate 150 (CHR ''a''))) + 2
       \<le> unat (CK_SCREEN_BUFFER_SIZE s1)"
    by blast
  moreover from capacity_growth [OF s b] p
  have "unat (CK_SCREEN_BUFFER_SIZE s) \<le> unat (CK_SCREEN_BUFFER_SIZE s1)"
    by simp
  ultimately show ?thesis using s by blast
qed

subsection \<open>C7: the shared sequence buffer\<close>

text \<open>
  C7. At any point of a session, two generated calls in a row return the same pointer,
  into \<^verbatim>\<open>CK_SEQUENCE_BUFFER\<close>: after the first call it shows the first
  sequence, after the second call it shows the second one.
\<close>

theorem generated_views_alias:
  assumes "session t inp cs = Inr s"
  shows "\<exists>p s1 s2. generate g1 s = Inr (p, s1) \<and> generate g2 s1 = Inr (p, s2) \<and>
           p = SEQUENCE_BUFFER_ptr \<and>
           read_str (deref s1 p) = Some (c_str (sequence_text g1)) \<and>
           read_str (deref s2 p) = Some (c_str (sequence_text g2))"
proof -
  have r: "sequence_ready s" by (rule session_sequence_ready [OF assms])
  from generate_returns [OF r, of g1] obtain q1 where
    g1: "generate g1 s = Inr (SEQUENCE_BUFFER_ptr,
           s\<lparr>CK_SEQUENCE_BUFFER := Allocated (sequence_text g1 @ [NUL] @ q1)\<rparr>)"
    and l1: "length (sequence_text g1 @ [NUL] @ q1) = CK_SEQUENCE_BUFFER_LEN" by blast
  define s1 where "s1 = s\<lparr>CK_SEQUENCE_BUFFER := Allocated (sequence_text g1 @ [NUL] @ q1)\<rparr>"
  have r1: "sequence_ready s1" using l1 by (simp add: s1_def sequence_ready_def)
  from generate_returns [OF r1, of g2] obtain q2 where
    g2: "generate g2 s1 = Inr (SEQUENCE_BUFFER_ptr,
           s1\<lparr>CK_SEQUENCE_BUFFER := Allocated (sequence_text g2 @ [NUL] @ q2)\<rparr>)" by blast
  define s2 where "s2 = s1\<lparr>CK_SEQUENCE_BUFFER := Allocated (sequence_text g2 @ [NUL] @ q2)\<rparr>"
  have "read_str (deref s1 SEQUENCE_BUFFER_ptr) = Some (c_str (sequence_text g1))"
    by (simp add: s1_def deref_def read_str_def c_str_append_NUL_any)
  moreover have "read_str (deref s2 SEQUENCE_BUFFER_ptr) = Some (c_str (sequence_text g2))"
    by (simp add: s2_def deref_def read_str_def c_str_append_NUL_any)
  ultimately show ?thesis using g1 g2 unfolding s1_def [symmetric] s2_def [symmetric] by blast
qed

theorem generated_views_alias_witness:
  "\<exists>s p s1 s2. session zero_termios '''' [] = Inr s \<and>
     generate (Rgb 38 255 0 0) s = Inr (p, s1) \<and>
     generate (Cursor_Goto 10 5) s1 = Inr (p, s2) \<and>
     read_str (deref s1 p) = Some (ESC # ''[38;2;255;0;0m'') \<and>
     read_str (deref s2 p) = Some (ESC # ''[5;10H'')"
proof -
  have "\<exists>s. session zero_termios '''' [] = Inr s" by (simp add: frame_eval)
  then obtain s where s: "session zero_termios '''' [] = Inr s" ..
  from generated_views_alias [OF s, where ?g1.0 = "Rgb 38 255 0 0"
      and ?g2.0 = "Cursor_Goto 10 5"]
  show ?thesis using s by (auto simp: decimal_eval c_str_def)
qed

subsection \<open>C8: the raw-mode bracket of the input calls\<close>




subsection \<open>C9: allocation failure\<close>

text \<open>
  C9. When the first \<^verbatim>\<open>calloc\<close> of \<^verbatim>\<open>ck_init\<close> succeeds and the
  second fails, the process exits while the frame buffer is still allocated: nothing
  releases it. (The failure path of \<^verbatim>\<open>ck_print\<close> does release both buffers:
  lemma \<open>ck_print_fails\<close>.)
\<close>

theorem ck_init_sequence_failure_keeps_frame_buffer:
  "\<exists>s. ck_init True False (process_start t inp) = Inl (Exit_Failure s) \<and>
       CK_SCREEN_BUFFER s = Allocated (replicate 100 NUL) \<and>
       CK_SEQUENCE_BUFFER s = Unallocated"
  by (simp add: frame_eval)

subsection \<open>C10: the first size query\<close>

text \<open>
  C10. The retained size of a fresh process is zero, so as long as it is untouched a
  call of \<^verbatim>\<open>ck_current_console_size\<close> returns \<^verbatim>\<open>has_changed\<close>
  exactly when the reported width or height is not zero, on either branch.
\<close>

theorem first_console_size_query:
  assumes "knownSize s = knownSize (process_start t inp)"
  shows "knownSize (process_start t inp) = \<lparr>width = 0, height = 0, has_changed = False\<rparr> \<and>
         has_changed (fst (ck_current_console_size d s)) = (ws_col d \<noteq> 0 \<or> ws_row d \<noteq> 0) \<and>
         has_changed (fst (ck_current_console_size_win32 w s)) =
           (sint (Right w) - sint (Left w) + 1 \<noteq> 0 \<or> sint (Bottom w) - sint (Top w) + 1 \<noteq> 0)"
proof -
  have k: "knownSize s = \<lparr>width = 0, height = 0, has_changed = False\<rparr>"
    using assms by (simp add: process_start_def)
  have z: "retained s = (0, 0)" using k by (simp add: retained_def)
  obtain r s' where u: "ck_current_console_size d s = (r, s')"
    by (cases "ck_current_console_size d s")
  obtain q u' where v: "ck_current_console_size_win32 w s = (q, u')"
    by (cases "ck_current_console_size_win32 w s")
  have "has_changed r = (ws_col d \<noteq> 0 \<or> ws_row d \<noteq> 0)"
    using console_size_step [OF u] z ucast_16_64_eq [of "ws_col d" 0]
      ucast_16_64_eq [of "ws_row d" 0] by (auto simp: reported_def)
  moreover have "has_changed q =
      (sint (Right w) - sint (Left w) + 1 \<noteq> 0 \<or> sint (Bottom w) - sint (Top w) + 1 \<noteq> 0)"
  proof -
    have o: "(0 :: size_t) = word_of_int (sint (0 :: 16 word) - sint (1 :: 16 word) + 1)"
      by simp
    have "reported_win32 w = (0, 0) \<longleftrightarrow>
        sint (Right w) - sint (Left w) = - 1 \<and> sint (Bottom w) - sint (Top w) = - 1"
      unfolding reported_win32_def prod.inject
      by (subst (1 2) o) (simp only: win32_dim_eq_iff, simp)
    then show ?thesis using console_size_win32_step [OF v] z by auto
  qed
  ultimately show ?thesis using u v by (simp add: process_start_def)
qed

theorem first_console_size_query_witness:
  "\<exists>s. session zero_termios '''' [Flip] = Inr s \<and>
       has_changed (fst (ck_current_console_size
         \<lparr>ws_row = 24, ws_col = 80, ws_xpixel = 0, ws_ypixel = 0\<rparr> s)) = True \<and>
       has_changed (fst (ck_current_console_size
         \<lparr>ws_row = 0, ws_col = 0, ws_xpixel = 0, ws_ypixel = 0\<rparr> s)) = False \<and>
       has_changed (fst (ck_current_console_size_win32
         \<lparr>Left = 0, Top = 0, Right = 79, Bottom = 24\<rparr> s)) = True"
proof -
  have "\<exists>s. session zero_termios '''' [Flip] = Inr s" by (simp add: frame_eval)
  then obtain s where s: "session zero_termios '''' [Flip] = Inr s" ..
  have k: "knownSize s = knownSize (process_start zero_termios '''')"
    by (rule session_knownSize [OF s]) simp
  from first_console_size_query [OF k,
      where d = "\<lparr>ws_row = 24, ws_col = 80, ws_xpixel = 0, ws_ypixel = 0\<rparr>"
        and w = "\<lparr>Left = 0, Top = 0, Right = 79, Bottom = 24\<rparr>"]
    first_console_size_query [OF k,
      where d = "\<lparr>ws_row = 0, ws_col = 0, ws_xpixel = 0, ws_ypixel = 0\<rparr>"
        and w = "\<lparr>Left = 0, Top = 0, Right = 79, Bottom = 24\<rparr>"]
  show ?thesis using s by auto
qed

end
